theory Spec2Isabelle
  imports Main
begin

section \<open>JavaScript values and the heap\<close>

text \<open>
  Field values are JavaScript values. Primitives are immediate; arrays and objects live in
  heap cells and are held by reference, so that two stores or two fields can share one array
  or object, as they do in the program. Numbers are represented by integers (the code never
  computes with them); an object is a plain object, the ordered list of its own enumerable
  properties.
\<close>

datatype jsval = JUndefined | JNull | JBool bool | JNum int | JStr string | JRef nat

datatype cell = Arr "jsval list" | Obj "(string \<times> jsval) list"

type_synonym heap = "cell list"

text \<open>
  References are only made by allocation, so no reference points outside the heap in a run
  of the program; reading one there gives an object without properties.
\<close>

definition cell_at :: "heap \<Rightarrow> nat \<Rightarrow> cell" where
  "cell_at h a = (if a < length h then h ! a else Obj [])"

definition alloc :: "cell \<Rightarrow> heap \<Rightarrow> jsval \<times> heap" where
  "alloc c h = (JRef (length h), h @ [c])"

text \<open>The properties of \<open>{...obj, [k]: v}\<close>, given those of \<open>obj\<close>: the value of an existing key
  is replaced where it stands, a new key comes last.\<close>

fun set_prop :: "string \<Rightarrow> jsval \<Rightarrow> (string \<times> jsval) list \<Rightarrow> (string \<times> jsval) list" where
  "set_prop k v [] = [(k, v)]"
| "set_prop k v ((k', v') # kvs) =
     (if k' = k then (k, v) # kvs else (k', v') # set_prop k v kvs)"

text \<open>In-place property assignment \<open>obj[k] = v\<close> and element assignment \<open>arr[i] = v\<close>,
  as code outside the library performs them on objects it holds.\<close>

definition assign_prop :: "nat \<Rightarrow> string \<Rightarrow> jsval \<Rightarrow> heap \<Rightarrow> heap" where
  "assign_prop a k v h =
     (if a < length h
      then (case h ! a of Obj kvs \<Rightarrow> h[a := Obj (set_prop k v kvs)] | Arr xs \<Rightarrow> h)
      else h)"

definition assign_elem :: "nat \<Rightarrow> nat \<Rightarrow> jsval \<Rightarrow> heap \<Rightarrow> heap" where
  "assign_elem a i v h =
     (if a < length h
      then (case h ! a of Arr xs \<Rightarrow> (if i < length xs then h[a := Arr (xs[i := v])] else h)
            | Obj kvs \<Rightarrow> h)
      else h)"

text \<open>Decimal rendering of an array index, as \<open>Object.keys\<close> names the elements of an array.\<close>

fun show_nat :: "nat \<Rightarrow> string" where
  "show_nat n =
     (if n < 10 then [''0123456789'' ! n]
      else show_nat (n div 10) @ [''0123456789'' ! (n mod 10)])"

declare show_nat.simps [simp del]

definition indexed :: "jsval list \<Rightarrow> (string \<times> jsval) list" where
  "indexed xs = zip (map show_nat [0..<length xs]) xs"

text \<open>JavaScript truthiness (\<open>!x\<close> is its negation).\<close>

fun truthy :: "jsval \<Rightarrow> bool" where
  "truthy JUndefined = False"
| "truthy JNull = False"
| "truthy (JBool b) = b"
| "truthy (JNum n) = (n \<noteq> 0)"
| "truthy (JStr s) = (s \<noteq> [])"
| "truthy (JRef a) = True"

section \<open>Thrown values\<close>

text \<open>
  A thrown value is a primitive or an object. Of a thrown object the program reads the
  properties \<open>path\<close>, \<open>errors\<close> and \<open>inner\<close> only. The \<open>path\<close> of a validation error is a
  string or undefined (or the property is missing altogether); \<open>errors\<close> is an array or
  something else; \<open>inner\<close> is falsy, an array of failures, or another truthy value. A failure
  in \<open>inner\<close> is destructured into \<open>message\<close> and \<open>path\<close>, which throws on null and undefined.
\<close>

datatype path_prop = PathAbsent | PathUndefined | PathString string

datatype errors_prop = ErrorsNotArray | ErrorsArray "jsval list"

datatype inner_elem = InnerNullish | InnerError (message: jsval) (path: path_prop)

datatype inner_prop = InnerFalsy | InnerNotArray | InnerArray "inner_elem list"

datatype thrown =
    Primitive jsval
  | ErrorObject (err_name: string) (err_message: string)
      (err_path: path_prop) (err_errors: errors_prop) (err_inner: inner_prop)

text \<open>A \<open>TypeError\<close>, thrown by \<open>newForm\<close>, by \<open>setFieldTouched\<close> or by the runtime itself.
  Messages are written without the quotation marks they contain.\<close>

definition TypeError :: "string \<Rightarrow> thrown" where
  "TypeError msg = ErrorObject ''TypeError'' msg PathAbsent ErrorsNotArray InnerFalsy"

text \<open>The property key that a \<open>path\<close> value denotes in \<open>{[path]: message}\<close>.\<close>

fun property_key :: "path_prop \<Rightarrow> string" where
  "property_key (PathString p) = p"
| "property_key PathUndefined = ''undefined''"
| "property_key PathAbsent = ''undefined''"

section \<open>utils.ts: clone\<close>

text \<open>\<open>Object.keys(obj)\<close> paired with \<open>obj[field]\<close>; \<open>Object.keys\<close> throws on null and
  undefined.\<close>

definition own_entries :: "heap \<Rightarrow> jsval \<Rightarrow> thrown + (string \<times> jsval) list" where
  "own_entries h obj =
     (case obj of
        JUndefined \<Rightarrow> Inl (TypeError ''Cannot convert undefined or null to object'')
      | JNull \<Rightarrow> Inl (TypeError ''Cannot convert undefined or null to object'')
      | JBool b \<Rightarrow> Inr []
      | JNum n \<Rightarrow> Inr []
      | JStr s \<Rightarrow> Inr (indexed (map (\<lambda>c. JStr [c]) s))
      | JRef a \<Rightarrow> Inr (case cell_at h a of Arr xs \<Rightarrow> indexed xs | Obj kvs \<Rightarrow> kvs))"

text \<open>\<open>Object.fromEntries\<close>: later entries overwrite earlier ones of the same key.\<close>

definition fromEntries :: "(string \<times> jsval) list \<Rightarrow> (string \<times> jsval) list" where
  "fromEntries es = foldl (\<lambda>acc (k, v). set_prop k v acc) [] es"

text \<open>The callback of \<open>map\<close> in \<open>clone\<close>, for one field value: the default value when one is
  given; a fresh copy of an array (\<open>[...x]\<close>) or of an object (\<open>{...x}\<close>), one level deep;
  any other value as it is.\<close>

definition clone_field :: "jsval \<Rightarrow> jsval \<Rightarrow> heap \<Rightarrow> jsval \<times> heap" where
  "clone_field defaultValue v h =
     (if defaultValue \<noteq> JUndefined then (defaultValue, h)
      else (case v of
              JRef a \<Rightarrow> (case cell_at h a of
                           Arr xs \<Rightarrow> alloc (Arr xs) h
                         | Obj kvs \<Rightarrow> alloc (Obj kvs) h)
            | _ \<Rightarrow> (v, h)))"

fun clone_entries ::
  "jsval \<Rightarrow> (string \<times> jsval) list \<Rightarrow> heap \<Rightarrow> (string \<times> jsval) list \<times> heap" where
  "clone_entries defaultValue [] h = ([], h)"
| "clone_entries defaultValue ((k, v) # kvs) h =
     (case clone_field defaultValue v h of
        (v', h') \<Rightarrow> (case clone_entries defaultValue kvs h' of
                      (rest, h'') \<Rightarrow> ((k, v') # rest, h'')))"

definition clone :: "jsval \<Rightarrow> jsval \<Rightarrow> heap \<Rightarrow> thrown + jsval \<times> heap" where
  "clone obj defaultValue h =
     (case own_entries h obj of
        Inl e \<Rightarrow> Inl e
      | Inr es \<Rightarrow> (case clone_entries defaultValue es h of
                    (es', h') \<Rightarrow> Inr (alloc (Obj (fromEntries es')) h')))"

section \<open>index.ts: configuration, stores and events\<close>

text \<open>The result of awaiting an external promise (or of an external call that may throw).\<close>

datatype outcome = Resolved | Rejected thrown

text \<open>The validation schema is an external capability. What its three methods answer may
  depend on the field asked for and on the form values they are given (a reference and the
  heap it points into).\<close>

record schema =
  validate :: "heap \<Rightarrow> jsval \<Rightarrow> outcome"
  validateAt :: "string \<Rightarrow> heap \<Rightarrow> jsval \<Rightarrow> outcome"
  validateSyncAt :: "string \<Rightarrow> heap \<Rightarrow> jsval \<Rightarrow> outcome"

text \<open>The submit callback is external too. It is given the values and the two helpers; the
  model takes from it the helper calls it makes, in order, and how it completes.\<close>

datatype helper_call = CallSetFieldError string jsval | CallSetFieldValue string jsval

record config =
  initialValues :: jsval
  onSubmit :: "(heap \<Rightarrow> jsval \<Rightarrow> helper_call list \<times> outcome) option"
  validateOnBlur :: bool
  validateOnChange :: bool
  validateOnFocus :: bool
  validateOnInput :: bool
  validationSchema :: "schema option"

text \<open>What the program does to the outside world, in order.\<close>

datatype effect =
    ConsoleError string
  | PreventDefault
  | StopPropagation
  | OnSubmit jsval
  | UnhandledRejection thrown

text \<open>The stores of one form instance (each holds its current content; \<open>st_errors\<close> is the
  store \<open>__errors\<close> of the source, and so on), with the heap their references point into and
  the effects so far.\<close>

record form =
  heap :: heap
  st_initialValues :: jsval
  st_isSubmitting :: bool
  st_isValidating :: bool
  st_errors :: jsval
  st_touched :: jsval
  st_values :: jsval
  trace :: "effect list"

text \<open>The target of an input event, and the submit event with its two optional capabilities.\<close>

record file_descriptor =
  file_name :: string
  file_size :: nat
  file_type :: string

record input_element =
  el_type :: string
  el_value :: jsval
  el_name :: string
  el_files :: "file_descriptor list"

datatype capability = Missing | NotFunction | Function

record submit_event =
  preventDefault :: capability
  stopPropagation :: capability

section \<open>index.ts: getInputValue\<close>

text \<open>The numeric conversion of unary \<open>+\<close> is the runtime's; it is a parameter here.\<close>

definition getInputValue :: "(jsval \<Rightarrow> jsval) \<Rightarrow> input_element \<Rightarrow> jsval" where
  "getInputValue unary_plus inputElement =
     (if el_type inputElement = ''number'' \<or> el_type inputElement = ''range''
      then unary_plus (el_value inputElement)
      else el_value inputElement)"

section \<open>index.ts: newForm and its operations\<close>

text \<open>The own enumerable properties that \<open>{...x}\<close> copies.\<close>

definition spread :: "heap \<Rightarrow> jsval \<Rightarrow> (string \<times> jsval) list" where
  "spread h v =
     (case v of
        JRef a \<Rightarrow> (case cell_at h a of Arr xs \<Rightarrow> indexed xs | Obj kvs \<Rightarrow> kvs)
      | JStr s \<Rightarrow> indexed (map (\<lambda>c. JStr [c]) s)
      | _ \<Rightarrow> [])"

definition newForm :: "config option \<Rightarrow> heap \<Rightarrow> thrown + form" where
  "newForm config h =
     (case config of
        None \<Rightarrow> Inl (TypeError ''You must provide a config to newForm. Expected config to be an object, received undefined instead.'')
      | Some c \<Rightarrow>
          if \<not> truthy (initialValues c)
          then Inl (TypeError ''You must specify initialValues with an object to FormConfig.'')
          else (case clone (initialValues c) JUndefined h of
                  Inl e \<Rightarrow> Inl e
                | Inr (iv, h1) \<Rightarrow>
                    (case clone iv JNull h1 of
                       Inl e \<Rightarrow> Inl e
                     | Inr (errs, h2) \<Rightarrow>
                         (case clone iv (JBool False) h2 of
                            Inl e \<Rightarrow> Inl e
                          | Inr (tch, h3) \<Rightarrow>
                              (case alloc (Obj (spread h3 iv)) h3 of
                                 (vals, h4) \<Rightarrow>
                                   Inr \<lparr>heap = h4, st_initialValues = iv,
                                        st_isSubmitting = False, st_isValidating = False,
                                        st_errors = errs, st_touched = tch, st_values = vals,
                                        trace = []\<rparr>)))))"

definition clearErrors :: "form \<Rightarrow> (thrown + unit) \<times> form" where
  "clearErrors s =
     (case clone (st_initialValues s) JNull (heap s) of
        Inl e \<Rightarrow> (Inl e, s)
      | Inr (errs, h') \<Rightarrow> (Inr (), s\<lparr>heap := h', st_errors := errs\<rparr>))"

definition setFieldError :: "string \<Rightarrow> jsval \<Rightarrow> form \<Rightarrow> form" where
  "setFieldError field msg s =
     (case alloc (Obj (set_prop field msg (spread (heap s) (st_errors s)))) (heap s) of
        (errs, h') \<Rightarrow> s\<lparr>heap := h', st_errors := errs\<rparr>)"

text \<open>The parameter \<open>value\<close> defaults to \<open>true\<close> when it is undefined.\<close>

definition setFieldTouched :: "string \<Rightarrow> jsval \<Rightarrow> form \<Rightarrow> (thrown + unit) \<times> form" where
  "setFieldTouched field value0 s =
     (let v = (if value0 = JUndefined then JBool True else value0) in
      case v of
        JBool b \<Rightarrow>
          (case alloc (Obj (set_prop field v (spread (heap s) (st_touched s)))) (heap s) of
             (tch, h') \<Rightarrow> (Inr (), s\<lparr>heap := h', st_touched := tch\<rparr>))
      | _ \<Rightarrow> (Inl (TypeError ''Expected a boolean value for setFieldTouched.''), s))"

definition setInitialValues :: "jsval \<Rightarrow> form \<Rightarrow> (thrown + unit) \<times> form" where
  "setInitialValues iv s =
     (case clone iv JUndefined (heap s) of
        Inl e \<Rightarrow> (Inl e, s)
      | Inr (iv', h') \<Rightarrow> (Inr (), s\<lparr>heap := h', st_initialValues := iv'\<rparr>))"

definition console_error :: "string \<Rightarrow> form \<Rightarrow> form" where
  "console_error msg s = s\<lparr>trace := trace s @ [ConsoleError msg]\<rparr>"

text \<open>\<open>'path' in error\<close> throws a TypeError when \<open>error\<close> is not an object; \<open>error.errors[0]\<close> is
  undefined for an empty array.\<close>

fun isArray :: "errors_prop \<Rightarrow> bool" where
  "isArray (ErrorsArray ms) = True"
| "isArray ErrorsNotArray = False"

fun first_error :: "errors_prop \<Rightarrow> jsval" where
  "first_error (ErrorsArray (m # ms)) = m"
| "first_error (ErrorsArray []) = JUndefined"
| "first_error ErrorsNotArray = JUndefined"

definition setYupValidationErrors :: "thrown \<Rightarrow> form \<Rightarrow> (thrown + unit) \<times> form" where
  "setYupValidationErrors error s =
     (case error of
        Primitive v \<Rightarrow>
          (Inl (TypeError ''Cannot use in operator to search for path in a primitive''), s)
      | ErrorObject nm msg p es inn \<Rightarrow>
          (if p \<noteq> PathAbsent \<and> isArray es
           then (Inr (), setFieldError (property_key p) (first_error es) s)
           else (Inr (), console_error ''Missing path and errors array.'' s)))"

text \<open>Without a schema, \<open>config.validationSchema.validateAt\<close> is a property access on
  undefined: the runtime throws a TypeError inside the \<open>try\<close> block.\<close>

definition validateField :: "config \<Rightarrow> string \<Rightarrow> form \<Rightarrow> (thrown + unit) \<times> form" where
  "validateField c field s =
     (let currentFormValues = st_values s in
      case validationSchema c of
        None \<Rightarrow>
          setYupValidationErrors
            (TypeError ''Cannot read properties of undefined (reading validateAt)'') s
      | Some sch \<Rightarrow>
          (case validateAt sch field (heap s) currentFormValues of
             Resolved \<Rightarrow> (Inr (), setFieldError field JNull s)
           | Rejected error \<Rightarrow> setYupValidationErrors error s))"

definition validateFieldSync :: "config \<Rightarrow> string \<Rightarrow> form \<Rightarrow> (thrown + unit) \<times> form" where
  "validateFieldSync c field s =
     (let currentFormValues = st_values s in
      case validationSchema c of
        None \<Rightarrow>
          setYupValidationErrors
            (TypeError ''Cannot read properties of undefined (reading validateSyncAt)'') s
      | Some sch \<Rightarrow>
          (case validateSyncAt sch field (heap s) currentFormValues of
             Resolved \<Rightarrow> (Inr (), setFieldError field JUndefined s)
           | Rejected error \<Rightarrow> setYupValidationErrors error s))"

definition setFieldValue ::
  "config \<Rightarrow> string \<Rightarrow> jsval \<Rightarrow> bool \<Rightarrow> form \<Rightarrow> (thrown + unit) \<times> form" where
  "setFieldValue c field v shouldValidateField s =
     (case alloc (Obj (set_prop field v (spread (heap s) (st_values s)))) (heap s) of
        (vals, h') \<Rightarrow>
          (let s' = s\<lparr>heap := h', st_values := vals\<rparr> in
           if shouldValidateField \<and> validationSchema c \<noteq> None
           then validateFieldSync c field s'
           else (Inr (), s')))"

definition reset :: "form \<Rightarrow> form" where
  "reset s = s\<lparr>st_values := st_initialValues s\<rparr>"

text \<open>\<open>handleBlur\<close> and \<open>handleFocus\<close> start \<open>validateField\<close> without awaiting it: what it
  does to the stores happens, a rejection of its promise reaches nobody.\<close>

definition fire_and_forget :: "(thrown + unit) \<times> form \<Rightarrow> form" where
  "fire_and_forget r =
     (case r of
        (Inl e, s) \<Rightarrow> s\<lparr>trace := trace s @ [UnhandledRejection e]\<rparr>
      | (Inr u, s) \<Rightarrow> s)"

definition handleBlur :: "config \<Rightarrow> input_element \<Rightarrow> form \<Rightarrow> (thrown + unit) \<times> form" where
  "handleBlur c target s =
     (let name = el_name target in
      case setFieldTouched name JUndefined s of
        (Inl e, s') \<Rightarrow> (Inl e, s')
      | (Inr u, s') \<Rightarrow>
          (if validateOnBlur c then (Inr (), fire_and_forget (validateField c name s'))
           else (Inr (), s')))"

definition handleChange ::
  "(jsval \<Rightarrow> jsval) \<Rightarrow> config \<Rightarrow> input_element \<Rightarrow> form \<Rightarrow> (thrown + unit) \<times> form" where
  "handleChange unary_plus c target s =
     (let name = el_name target; v = getInputValue unary_plus target in
      setFieldValue c name v (validateOnChange c) s)"

definition handleFocus :: "config \<Rightarrow> input_element \<Rightarrow> form \<Rightarrow> (thrown + unit) \<times> form" where
  "handleFocus c target s =
     (let name = el_name target in
      case setFieldTouched name JUndefined s of
        (Inl e, s') \<Rightarrow> (Inl e, s')
      | (Inr u, s') \<Rightarrow>
          (if validateOnFocus c then (Inr (), fire_and_forget (validateField c name s'))
           else (Inr (), s')))"

definition handleInput ::
  "(jsval \<Rightarrow> jsval) \<Rightarrow> config \<Rightarrow> input_element \<Rightarrow> form \<Rightarrow> (thrown + unit) \<times> form" where
  "handleInput unary_plus c target s =
     (let name = el_name target; v = getInputValue unary_plus target in
      setFieldValue c name v (validateOnInput c) s)"

text \<open>The helpers handed to \<open>onSubmit\<close> are \<open>setFieldError\<close> and \<open>setFieldValue\<close>; the
  helper type gives \<open>setFieldValue\<close> two arguments, so it does not validate.\<close>

definition run_helper :: "config \<Rightarrow> helper_call \<Rightarrow> form \<Rightarrow> form" where
  "run_helper c call s =
     (case call of
        CallSetFieldError field msg \<Rightarrow> setFieldError field msg s
      | CallSetFieldValue field v \<Rightarrow> snd (setFieldValue c field v False s))"

definition call_onSubmit ::
  "config \<Rightarrow> (heap \<Rightarrow> jsval \<Rightarrow> helper_call list \<times> outcome) \<Rightarrow> jsval \<Rightarrow> form
     \<Rightarrow> (thrown + unit) \<times> form" where
  "call_onSubmit c submit currentValues s =
     (case submit (heap s) currentValues of
        (calls, result) \<Rightarrow>
          (let s' = foldl (\<lambda>acc call. run_helper c call acc)
                      (s\<lparr>trace := trace s @ [OnSubmit currentValues]\<rparr>) calls
           in case result of
                Resolved \<Rightarrow> (Inr (), s')
              | Rejected e \<Rightarrow> (Inl e, s')))"

text \<open>\<open>error.inner.reduce\<close> with the accumulator \<open>{...acc, [path]: message}\<close>, starting from
  \<open>{}\<close>. Only the final accumulator is stored, so only it is allocated.\<close>

fun reduce_inner ::
  "inner_elem list \<Rightarrow> (string \<times> jsval) list \<Rightarrow> thrown + (string \<times> jsval) list" where
  "reduce_inner [] acc = Inr acc"
| "reduce_inner (InnerNullish # fs) acc =
     Inl (TypeError ''Cannot destructure property message of undefined or null'')"
| "reduce_inner (InnerError m p # fs) acc = reduce_inner fs (set_prop (property_key p) m acc)"

text \<open>The inner \<open>try\<close>/\<open>catch\<close>/\<open>finally\<close> of \<open>handleSubmit\<close>. The result \<open>Inr False\<close> is the
  \<open>return\<close> of the catch block, \<open>Inr True\<close> is falling through to the call of \<open>onSubmit\<close>.\<close>

definition validate_values :: "schema \<Rightarrow> jsval \<Rightarrow> form \<Rightarrow> (thrown + bool) \<times> form" where
  "validate_values sch currentValues s =
     (let s1 = s\<lparr>st_isValidating := True\<rparr> in
      case (case validate sch (heap s1) currentValues of
              Resolved \<Rightarrow> (Inr True, s1)
            | Rejected error \<Rightarrow>
                (case error of
                   Primitive v \<Rightarrow> (Inl error, s1)
                 | ErrorObject nm msg p es inn \<Rightarrow>
                     (case inn of
                        InnerFalsy \<Rightarrow> (Inl error, s1)
                      | InnerNotArray \<Rightarrow>
                          (Inl (TypeError ''error.inner.reduce is not a function''), s1)
                      | InnerArray fs \<Rightarrow>
                          (case reduce_inner fs [] of
                             Inl e \<Rightarrow> (Inl e, s1)
                           | Inr validationErrors \<Rightarrow>
                               (case alloc (Obj validationErrors) (heap s1) of
                                  (errs, h') \<Rightarrow>
                                    (Inr False, s1\<lparr>heap := h', st_errors := errs\<rparr>))))))
      of (r, s2) \<Rightarrow> (r, s2\<lparr>st_isValidating := False\<rparr>))"

definition call_capability :: "capability \<Rightarrow> effect \<Rightarrow> form \<Rightarrow> form" where
  "call_capability cap eff s =
     (case cap of Function \<Rightarrow> s\<lparr>trace := trace s @ [eff]\<rparr> | _ \<Rightarrow> s)"

text \<open>The body of the outer \<open>try\<close> block of \<open>handleSubmit\<close>.\<close>

definition submit_body ::
  "config \<Rightarrow> submit_event option \<Rightarrow> form \<Rightarrow> (thrown + unit) \<times> form" where
  "submit_body c event s =
     (case onSubmit c of
        None \<Rightarrow> (Inr (), s)
      | Some submit \<Rightarrow>
          (let s1 = (case event of None \<Rightarrow> s
                     | Some ev \<Rightarrow> call_capability (preventDefault ev) PreventDefault s);
               s2 = (case event of None \<Rightarrow> s1
                     | Some ev \<Rightarrow> call_capability (stopPropagation ev) StopPropagation s1);
               currentValues = st_values s2
           in case clearErrors s2 of
                (Inl e, s3) \<Rightarrow> (Inl e, s3)
              | (Inr u, s3) \<Rightarrow>
                  (let s4 = s3\<lparr>st_isSubmitting := True\<rparr> in
                   case validationSchema c of
                     None \<Rightarrow> call_onSubmit c submit currentValues s4
                   | Some sch \<Rightarrow>
                       (case validate_values sch currentValues s4 of
                          (Inl e, s5) \<Rightarrow> (Inl e, s5)
                        | (Inr False, s5) \<Rightarrow> (Inr (), s5)
                        | (Inr True, s5) \<Rightarrow> call_onSubmit c submit currentValues s5))))"

definition handleSubmit ::
  "config \<Rightarrow> submit_event option \<Rightarrow> form \<Rightarrow> (thrown + unit) \<times> form" where
  "handleSubmit c event s =
     (case submit_body c event s of (r, s') \<Rightarrow> (r, s'\<lparr>st_isSubmitting := False\<rparr>))"

section \<open>Deep values and copies\<close>

text \<open>The value that a reference stands for, unfolded to a given depth: below that depth,
  and where a reference leads out of the heap, the reference itself is the leaf. A snapshot is
  closed when no reference is left in it, that is when the whole value lies within the
  depth.\<close>

datatype snapshot = Leaf jsval | ArrayOf "snapshot list" | ObjectOf "(string \<times> snapshot) list"

primrec snapshot_of :: "heap \<Rightarrow> nat \<Rightarrow> jsval \<Rightarrow> snapshot" where
  "snapshot_of h 0 v = Leaf v"
| "snapshot_of h (Suc n) v =
     (case v of
        JRef a \<Rightarrow>
          (if a < length h
           then (case h ! a of
                   Arr xs \<Rightarrow> ArrayOf (map (snapshot_of h n) xs)
                 | Obj kvs \<Rightarrow> ObjectOf (map (\<lambda>(k, x). (k, snapshot_of h n x)) kvs))
           else Leaf v)
      | _ \<Rightarrow> Leaf v)"

fun closed :: "snapshot \<Rightarrow> bool" where
  "closed (Leaf v) = (case v of JRef a \<Rightarrow> False | _ \<Rightarrow> True)"
| "closed (ArrayOf ts) = (\<forall>t \<in> set ts. closed t)"
| "closed (ObjectOf kts) = (\<forall>t \<in> set (map snd kts). closed t)"

text \<open>\<open>v'\<close> is what \<open>clone\<close> makes of the field value \<open>v\<close> of an object in the heap \<open>h\<close>: the
  value itself when it is a primitive, and otherwise a reference to a cell that \<open>h\<close> does not
  have, holding what the cell of \<open>v\<close> holds. \<open>agree_from k h h2\<close>: the heap \<open>h2\<close> has every cell
  of \<open>h\<close> from address \<open>k\<close> on unchanged.\<close>

definition copy_of :: "heap \<Rightarrow> heap \<Rightarrow> jsval \<Rightarrow> jsval \<Rightarrow> bool" where
  "copy_of h h' v v' =
     (case v of
        JRef b \<Rightarrow> (\<exists>b'. v' = JRef b' \<and> length h \<le> b' \<and> b' < length h' \<and>
                        (b < length h \<longrightarrow> h' ! b' = h ! b))
      | _ \<Rightarrow> v' = v)"

definition agree_from :: "nat \<Rightarrow> heap \<Rightarrow> heap \<Rightarrow> bool" where
  "agree_from k h h2 = (length h \<le> length h2 \<and> (\<forall>a. k \<le> a \<and> a < length h \<longrightarrow> h2 ! a = h ! a))"

definition entry_copy :: "heap \<Rightarrow> heap \<Rightarrow> string \<times> jsval \<Rightarrow> string \<times> jsval \<Rightarrow> bool" where
  "entry_copy h h' e e' = (fst e' = fst e \<and> copy_of h h' (snd e) (snd e'))"


section \<open>Reading the effects\<close>

text \<open>The arguments of the calls of \<open>onSubmit\<close> among the effects, in order.\<close>

fun onSubmit_calls :: "effect list \<Rightarrow> jsval list" where
  "onSubmit_calls [] = []"
| "onSubmit_calls (OnSubmit v # effs) = v # onSubmit_calls effs"
| "onSubmit_calls (eff # effs) = onSubmit_calls effs"


text \<open>The effects of the capability calls that \<open>handleSubmit\<close> makes on an event.\<close>

definition capability_effects :: "submit_event option \<Rightarrow> effect list" where
  "capability_effects event =
     (case event of
        None \<Rightarrow> []
      | Some ev \<Rightarrow>
          (if preventDefault ev = Function then [PreventDefault] else []) @
          (if stopPropagation ev = Function then [StopPropagation] else []))"


section \<open>Sequences of operations\<close>

text \<open>The operations of a form instance, as a caller or the page invokes them one after the
  other. They run to completion one at a time (overlapping asynchronous calls are not
  modelled); when one throws, the caller goes on with the state it left.\<close>

datatype operation =
    ClearErrors
  | HandleBlur input_element
  | HandleChange input_element
  | HandleFocus input_element
  | HandleInput input_element
  | HandleSubmit "submit_event option"
  | Reset
  | SetInitialValues jsval
  | SetFieldError string jsval
  | SetFieldTouched string jsval
  | SetFieldValue string jsval bool
  | ValidateField string
  | ValidateFieldSync string

fun perform ::
  "(jsval \<Rightarrow> jsval) \<Rightarrow> config \<Rightarrow> operation \<Rightarrow> form \<Rightarrow> (thrown + unit) \<times> form" where
  "perform up c ClearErrors s = clearErrors s"
| "perform up c (HandleBlur target) s = handleBlur c target s"
| "perform up c (HandleChange target) s = handleChange up c target s"
| "perform up c (HandleFocus target) s = handleFocus c target s"
| "perform up c (HandleInput target) s = handleInput up c target s"
| "perform up c (HandleSubmit event) s = handleSubmit c event s"
| "perform up c Reset s = (Inr (), reset s)"
| "perform up c (SetInitialValues iv) s = setInitialValues iv s"
| "perform up c (SetFieldError field msg) s = (Inr (), setFieldError field msg s)"
| "perform up c (SetFieldTouched field v) s = setFieldTouched field v s"
| "perform up c (SetFieldValue field v shouldValidateField) s =
     setFieldValue c field v shouldValidateField s"
| "perform up c (ValidateField field) s = validateField c field s"
| "perform up c (ValidateFieldSync field) s = validateFieldSync c field s"

fun run :: "(jsval \<Rightarrow> jsval) \<Rightarrow> config \<Rightarrow> operation list \<Rightarrow> form \<Rightarrow> form" where
  "run up c [] s = s"
| "run up c (a # as) s = run up c as (snd (perform up c a s))"

text \<open>The key set of the object that a store holds, and the condition that the stores hold
  objects of the heap whose key sets lie within \<open>K\<close> (for values and initial values: are
  \<open>K\<close>).\<close>

definition keys_of :: "heap \<Rightarrow> jsval \<Rightarrow> string set" where
  "keys_of h v = set (map fst (spread h v))"

definition valid_ref :: "heap \<Rightarrow> jsval \<Rightarrow> bool" where
  "valid_ref h v = (case v of JRef a \<Rightarrow> a < length h | _ \<Rightarrow> False)"

definition form_within :: "string set \<Rightarrow> form \<Rightarrow> bool" where
  "form_within K s =
     (valid_ref (heap s) (st_values s) \<and> keys_of (heap s) (st_values s) = K \<and>
      valid_ref (heap s) (st_initialValues s) \<and> keys_of (heap s) (st_initialValues s) = K \<and>
      valid_ref (heap s) (st_errors s) \<and> keys_of (heap s) (st_errors s) \<subseteq> K \<and>
      valid_ref (heap s) (st_touched s) \<and> keys_of (heap s) (st_touched s) \<subseteq> K)"

text \<open>The property keys that a rejected validation makes the program write: the \<open>path\<close> of
  a single-field error, the paths of the failures of a whole-object error; and the fields
  that the helper calls of a submit callback name. A configuration is within \<open>K\<close> when its
  schema and its submit callback only ever name keys of \<open>K\<close>; an operation is within \<open>K\<close>
  when the field it names is in \<open>K\<close>, and when the object given to \<open>setInitialValues\<close> has
  the key set \<open>K\<close>.\<close>

fun field_error_keys :: "outcome \<Rightarrow> string list" where
  "field_error_keys (Rejected (ErrorObject nm msg p es inn)) =
     (if p \<noteq> PathAbsent \<and> isArray es then [property_key p] else [])"
| "field_error_keys r = []"

fun inner_paths :: "inner_elem list \<Rightarrow> string list" where
  "inner_paths [] = []"
| "inner_paths (InnerError m p # fs) = property_key p # inner_paths fs"
| "inner_paths (InnerNullish # fs) = inner_paths fs"

fun inner_keys :: "outcome \<Rightarrow> string list" where
  "inner_keys (Rejected (ErrorObject nm msg p es (InnerArray fs))) = inner_paths fs"
| "inner_keys r = []"

fun helper_field :: "helper_call \<Rightarrow> string" where
  "helper_field (CallSetFieldError field msg) = field"
| "helper_field (CallSetFieldValue field v) = field"

definition config_within :: "string set \<Rightarrow> config \<Rightarrow> bool" where
  "config_within K c =
     ((case validationSchema c of
         None \<Rightarrow> True
       | Some sch \<Rightarrow>
           (\<forall>field h v. set (field_error_keys (validateAt sch field h v)) \<subseteq> K \<and>
                        set (field_error_keys (validateSyncAt sch field h v)) \<subseteq> K) \<and>
           (\<forall>h v. set (inner_keys (validate sch h v)) \<subseteq> K)) \<and>
      (case onSubmit c of
         None \<Rightarrow> True
       | Some submit \<Rightarrow> (\<forall>h v. set (map helper_field (fst (submit h v))) \<subseteq> K)))"

fun operation_within :: "string set \<Rightarrow> heap \<Rightarrow> operation \<Rightarrow> bool" where
  "operation_within K h (HandleBlur target) = (el_name target \<in> K)"
| "operation_within K h (HandleChange target) = (el_name target \<in> K)"
| "operation_within K h (HandleFocus target) = (el_name target \<in> K)"
| "operation_within K h (HandleInput target) = (el_name target \<in> K)"
| "operation_within K h (SetInitialValues iv) =
     (iv = JUndefined \<or> iv = JNull \<or> keys_of h iv = K)"
| "operation_within K h (SetFieldError field msg) = (field \<in> K)"
| "operation_within K h (SetFieldTouched field v) = (field \<in> K)"
| "operation_within K h (SetFieldValue field v shouldValidateField) = (field \<in> K)"
| "operation_within K h (ValidateField field) = (field \<in> K)"
| "operation_within K h (ValidateFieldSync field) = (field \<in> K)"
| "operation_within K h a = True"

fun operations_within ::
  "(jsval \<Rightarrow> jsval) \<Rightarrow> config \<Rightarrow> string set \<Rightarrow> operation list \<Rightarrow> form \<Rightarrow> bool" where
  "operations_within up c K [] s = True"
| "operations_within up c K (a # as) s =
     (operation_within K (heap s) a \<and> operations_within up c K as (snd (perform up c a s)))"



section \<open>Example configurations and states\<close>

text \<open>A configuration without schema and without submit callback, and the form that
  \<open>newForm\<close> makes of the object \<open>{name: ""}\<close> at address 0.\<close>

definition plain_config :: config where
  "plain_config =
     \<lparr>initialValues = JRef 0, onSubmit = None, validateOnBlur = False,
      validateOnChange = False, validateOnFocus = False, validateOnInput = False,
      validationSchema = None\<rparr>"

definition name_form :: form where
  "name_form =
     \<lparr>heap = [Obj [(''name'', JStr [])], Obj [(''name'', JStr [])],
              Obj [(''name'', JNull)], Obj [(''name'', JBool False)],
              Obj [(''name'', JStr [])]],
      st_initialValues = JRef 1, st_isSubmitting = False, st_isValidating = False,
      st_errors = JRef 2, st_touched = JRef 3, st_values = JRef 4, trace = []\<rparr>"

text \<open>A schema that rejects every whole-object validation with three failures, two of them
  for the same path, and every single-field validation with one message; a configuration
  with that schema and a submit callback that does nothing.\<close>

definition failing_schema :: schema where
  "failing_schema =
     \<lparr>validate = (\<lambda>h v. Rejected (ErrorObject ''ValidationError'' ''3 errors occurred''
          PathUndefined
          (ErrorsArray [JStr ''too short'', JStr ''required'', JStr ''not a name''])
          (InnerArray [InnerError (JStr ''too short'') (PathString ''name''),
                       InnerError (JStr ''required'') (PathString ''email''),
                       InnerError (JStr ''not a name'') (PathString ''name'')]))),
      validateAt = (\<lambda>field h v. Rejected (ErrorObject ''ValidationError'' ''required''
          (PathString field) (ErrorsArray [JStr ''required'']) (InnerArray []))),
      validateSyncAt = (\<lambda>field h v. Rejected (ErrorObject ''ValidationError'' ''required''
          (PathString field) (ErrorsArray [JStr ''required'']) (InnerArray [])))\<rparr>"

definition failing_config :: config where
  "failing_config =
     \<lparr>initialValues = JRef 0, onSubmit = Some (\<lambda>h v. ([], Resolved)),
      validateOnBlur = False, validateOnChange = False, validateOnFocus = False,
      validateOnInput = False, validationSchema = Some failing_schema\<rparr>"

definition click :: "submit_event option" where
  "click = Some \<lparr>preventDefault = Function, stopPropagation = Function\<rparr>"


text \<open>A configuration whose submit callback does nothing, without schema; a schema whose
  single-field validations throw an object with a \<open>path\<close> and an empty \<open>errors\<close> array; a
  schema whose single-field validations throw an object without \<open>path\<close>.\<close>

definition submitting_config :: config where
  "submitting_config = plain_config\<lparr>onSubmit := Some (\<lambda>h v. ([], Resolved))\<rparr>"

definition empty_errors :: thrown where
  "empty_errors =
     ErrorObject ''ValidationError'' [] (PathString ''name'') (ErrorsArray []) InnerFalsy"

definition empty_errors_config :: config where
  "empty_errors_config =
     plain_config\<lparr>validationSchema := Some
       \<lparr>validate = (\<lambda>h v. Resolved),
        validateAt = (\<lambda>field h v. Rejected empty_errors),
        validateSyncAt = (\<lambda>field h v. Rejected empty_errors)\<rparr>\<rparr>"

definition pathless_error :: thrown where
  "pathless_error =
     ErrorObject ''Error'' ''network down'' PathAbsent (ErrorsArray [JStr ''network down''])
       InnerFalsy"

definition pathless_config :: config where
  "pathless_config =
     plain_config\<lparr>validationSchema := Some
       \<lparr>validate = (\<lambda>h v. Resolved),
        validateAt = (\<lambda>field h v. Rejected pathless_error),
        validateSyncAt = (\<lambda>field h v. Rejected pathless_error)\<rparr>\<rparr>"


definition passing_config :: config where
  "passing_config =
     submitting_config\<lparr>validationSchema := Some
       \<lparr>validate = (\<lambda>h v. Resolved),
        validateAt = (\<lambda>field h v. Resolved),
        validateSyncAt = (\<lambda>field h v. Resolved)\<rparr>\<rparr>"


text \<open>The object \<open>{inventory: [{id: 1}]}\<close> at address 2, a configuration with it as initial
  values, and the form that \<open>newForm\<close> makes of it.\<close>

definition nested_heap :: heap where
  "nested_heap = [Obj [(''id'', JNum 1)], Arr [JRef 0], Obj [(''inventory'', JRef 1)]]"

definition nested_config :: config where
  "nested_config = plain_config\<lparr>initialValues := JRef 2\<rparr>"

definition nested_form :: form where
  "nested_form =
     \<lparr>heap = nested_heap @
        [Arr [JRef 0], Obj [(''inventory'', JRef 3)], Obj [(''inventory'', JNull)],
         Obj [(''inventory'', JBool False)], Obj [(''inventory'', JRef 3)]],
      st_initialValues = JRef 4, st_isSubmitting = False, st_isValidating = False,
      st_errors = JRef 5, st_touched = JRef 6, st_values = JRef 7, trace = []\<rparr>"


text \<open>A configuration that stays within the key \<open>name\<close>: its schema rejects the empty name
  and every single field with the path \<open>name\<close>, and its submit callback sets the error of
  \<open>name\<close>. Two input elements, and a session of operations on the field \<open>name\<close>.\<close>

definition strict_config :: config where
  "strict_config =
     \<lparr>initialValues = JRef 0,
      onSubmit = Some (\<lambda>h v. ([CallSetFieldError ''name'' (JStr ''taken'')], Resolved)),
      validateOnBlur = True, validateOnChange = True, validateOnFocus = False,
      validateOnInput = False,
      validationSchema = Some
        \<lparr>validate = (\<lambda>h v. if spread h v = [(''name'', JStr [])]
            then Rejected (ErrorObject ''ValidationError'' ''required''
              PathUndefined (ErrorsArray [JStr ''required''])
              (InnerArray [InnerError (JStr ''required'') (PathString ''name'')]))
            else Resolved),
         validateAt = (\<lambda>field h v. Rejected (ErrorObject ''ValidationError'' ''required''
            (PathString ''name'') (ErrorsArray [JStr ''required'']) (InnerArray []))),
         validateSyncAt = (\<lambda>field h v. Resolved)\<rparr>\<rparr>"

definition name_input :: input_element where
  "name_input = \<lparr>el_type = ''text'', el_value = JStr ''Ada'', el_name = ''name'', el_files = []\<rparr>"

definition other_input :: input_element where
  "other_input = \<lparr>el_type = ''text'', el_value = JStr ''x'', el_name = ''other'', el_files = []\<rparr>"

definition session :: "operation list" where
  "session =
     [HandleChange name_input, HandleBlur name_input, SetFieldTouched ''name'' (JBool False),
      HandleSubmit click, Reset, HandleSubmit None, SetInitialValues (JRef 0), ClearErrors,
      ValidateField ''name'']"

section \<open>Basic facts\<close>

subsection \<open>Property lists\<close>

lemma set_prop_map_of: "map_of (set_prop k v kvs) = (map_of kvs)(k \<mapsto> v)"
  by (induction kvs) auto

lemma set_prop_map_fst:
  "map fst (set_prop k v kvs) =
     (if k \<in> set (map fst kvs) then map fst kvs else map fst kvs @ [k])"
  by (induction kvs) (force simp: image_iff)+

lemma set_prop_keys: "set (map fst (set_prop k v kvs)) = insert k (set (map fst kvs))"
  by (auto simp: set_prop_map_fst)

lemma set_prop_distinct:
  "distinct (map fst kvs) \<Longrightarrow> distinct (map fst (set_prop k v kvs))"
  by (auto simp: set_prop_map_fst)

lemma foldl_set_prop_map_of:
  "map_of (foldl (\<lambda>acc f. set_prop (kf f) (vf f) acc) acc fs) =
     map_of (rev (map (\<lambda>f. (kf f, vf f)) fs) @ acc)"
proof (induction fs arbitrary: acc)
  case Nil
  then show ?case by simp
next
  case (Cons f fs)
  show ?case
    by (simp add: Cons.IH set_prop_map_of map_add_def fun_eq_iff split: option.splits)
qed

lemma foldl_set_prop_distinct:
  "distinct (map fst acc) \<Longrightarrow>
   distinct (map fst (foldl (\<lambda>acc f. set_prop (kf f) (vf f) acc) acc fs))"
  by (induction fs arbitrary: acc) (simp_all add: set_prop_distinct)

lemma reduce_inner_foldl:
  "InnerNullish \<notin> set fs \<Longrightarrow>
   reduce_inner fs acc =
     Inr (foldl (\<lambda>acc f. set_prop (property_key (path f)) (message f) acc) acc fs)"
proof (induction fs arbitrary: acc)
  case Nil
  then show ?case by simp
next
  case (Cons f fs)
  then show ?case by (cases f) auto
qed

subsection \<open>What each step of a submit leaves alone\<close>

lemma setFieldError_flags [simp]:
  "st_isSubmitting (setFieldError f m s) = st_isSubmitting s"
  "st_isValidating (setFieldError f m s) = st_isValidating s"
  by (simp_all add: setFieldError_def alloc_def)

lemma run_helper_flags [simp]:
  "st_isSubmitting (run_helper c call s) = st_isSubmitting s"
  "st_isValidating (run_helper c call s) = st_isValidating s"
  by (simp_all add: run_helper_def setFieldValue_def alloc_def split: helper_call.splits)

lemma run_helpers_flags [simp]:
  "st_isSubmitting (foldl (\<lambda>acc call. run_helper c call acc) s calls) = st_isSubmitting s"
  "st_isValidating (foldl (\<lambda>acc call. run_helper c call acc) s calls) = st_isValidating s"
  by (induction calls arbitrary: s) simp_all

lemma call_onSubmit_isValidating [simp]:
  "st_isValidating (snd (call_onSubmit c submit v s)) = st_isValidating s"
  by (simp add: call_onSubmit_def Let_def split: prod.splits outcome.splits)

lemma validate_values_isValidating [simp]:
  "st_isValidating (snd (validate_values sch v s)) = False"
  by (simp add: validate_values_def Let_def split: prod.splits)

lemma call_capability_frame [simp]:
  "st_isValidating (call_capability cap eff s) = st_isValidating s"
  "st_initialValues (call_capability cap eff s) = st_initialValues s"
  "st_values (call_capability cap eff s) = st_values s"
  "heap (call_capability cap eff s) = heap s"
  by (simp_all add: call_capability_def split: capability.splits)

lemma onSubmit_calls_append [simp]:
  "onSubmit_calls (xs @ ys) = onSubmit_calls xs @ onSubmit_calls ys"
  by (induction xs rule: onSubmit_calls.induct) simp_all

lemma call_capability_calls [simp]:
  "onSubmit_calls (trace (call_capability cap PreventDefault s)) = onSubmit_calls (trace s)"
  "onSubmit_calls (trace (call_capability cap StopPropagation s)) = onSubmit_calls (trace s)"
  by (simp_all add: call_capability_def split: capability.splits)

lemma clearErrors_frame [simp]:
  "st_isValidating (snd (clearErrors s)) = st_isValidating s"
  "trace (snd (clearErrors s)) = trace s"
  "st_values (snd (clearErrors s)) = st_values s"
  by (simp_all add: clearErrors_def split: sum.splits prod.splits)

lemma clearErrors_returns:
  "fst (clearErrors s) = Inr () \<longleftrightarrow>
     st_initialValues s \<noteq> JUndefined \<and> st_initialValues s \<noteq> JNull"
  by (auto simp add: clearErrors_def clone_def own_entries_def
      split: sum.splits prod.splits jsval.splits)

lemma clearErrors_throws:
  "fst (clearErrors s) = Inl e \<Longrightarrow>
     st_initialValues s = JUndefined \<or> st_initialValues s = JNull"
  using clearErrors_returns [of s] by (cases "fst (clearErrors s)") auto

lemma clearErrors_ok:
  "fst (clearErrors s) = Inr u \<Longrightarrow>
     st_initialValues s \<noteq> JUndefined \<and> st_initialValues s \<noteq> JNull"
  using clearErrors_returns [of s] by simp

lemma clearErrors_cong:
  "heap s' = heap s \<Longrightarrow> st_initialValues s' = st_initialValues s \<Longrightarrow>
   heap (snd (clearErrors s')) = heap (snd (clearErrors s)) \<and>
   fst (clearErrors s') = fst (clearErrors s)"
  by (simp add: clearErrors_def split: sum.splits prod.splits)

lemma clearErrors_capabilities:
  "heap (snd (clearErrors (call_capability c1 e1 (call_capability c2 e2 s)))) =
     heap (snd (clearErrors s))"
  "fst (clearErrors (call_capability c1 e1 (call_capability c2 e2 s))) = fst (clearErrors s)"
  using clearErrors_cong [of "call_capability c1 e1 (call_capability c2 e2 s)" s]
  by simp_all

text \<open>The state in which \<open>handleSubmit\<close> reads the values and clears the errors: the given one
  after the calls of the event's capabilities.\<close>

lemma after_capabilities:
  assumes "s2 = (case event of None \<Rightarrow> s | Some ev \<Rightarrow>
           call_capability (stopPropagation ev) StopPropagation
             (call_capability (preventDefault ev) PreventDefault s))"
  shows "heap (snd (clearErrors s2)) = heap (snd (clearErrors s))"
    and "fst (clearErrors s2) = fst (clearErrors s)"
    and "st_values s2 = st_values s"
    and "onSubmit_calls (trace s2) = onSubmit_calls (trace s)"
  using assms by (simp_all add: clearErrors_capabilities split: option.splits)

lemma validate_values_failure:
  assumes "validate sch (heap s) v = Rejected (ErrorObject nm msg p es (InnerArray fs))"
    and "InnerNullish \<notin> set fs"
  shows "validate_values sch v s =
    (Inr False,
     s\<lparr>heap := heap s @
          [Obj (foldl (\<lambda>acc f. set_prop (property_key (path f)) (message f) acc) [] fs)],
       st_errors := JRef (length (heap s)), st_isValidating := False\<rparr>)"
  using assms by (simp add: validate_values_def reduce_inner_foldl alloc_def)

lemma submit_body_short_circuit:
  assumes "onSubmit c = Some submit" and "validationSchema c = Some sch"
    and "s2 = (case event of None \<Rightarrow> s | Some ev \<Rightarrow>
           call_capability (stopPropagation ev) StopPropagation
             (call_capability (preventDefault ev) PreventDefault s))"
    and "fst (clearErrors s2) = Inr ()"
    and "validate_values sch (st_values s2)
           ((snd (clearErrors s2))\<lparr>st_isSubmitting := True\<rparr>) = (Inr False, s5)"
  shows "submit_body c event s = (Inr (), s5)"
  using assms by (cases "clearErrors s2"; cases event) (auto simp add: submit_body_def Let_def)


lemma run_helper_trace [simp]: "trace (run_helper c call s) = trace s"
  by (simp add: run_helper_def setFieldError_def setFieldValue_def alloc_def
      split: helper_call.splits)

lemma run_helpers_trace [simp]:
  "trace (foldl (\<lambda>acc call. run_helper c call acc) s calls) = trace s"
  by (induction calls arbitrary: s) simp_all

lemma call_onSubmit_trace:
  "trace (snd (call_onSubmit c submit v s)) = trace s @ [OnSubmit v]"
  by (simp add: call_onSubmit_def Let_def split: prod.splits outcome.splits)

lemma capabilities_trace:
  "trace (case event of None \<Rightarrow> s | Some ev \<Rightarrow>
           call_capability (stopPropagation ev) StopPropagation
             (call_capability (preventDefault ev) PreventDefault s)) =
   trace s @ capability_effects event"
  by (simp add: capability_effects_def call_capability_def
      split: option.splits capability.splits)

lemma validate_values_passes:
  "validate sch (heap s) v = Resolved \<Longrightarrow>
   validate_values sch v s = (Inr True, s\<lparr>st_isValidating := False\<rparr>)"
  by (simp add: validate_values_def)

lemma submit_body_proceeds:
  assumes "onSubmit c = Some submit"
    and "s2 = (case event of None \<Rightarrow> s | Some ev \<Rightarrow>
           call_capability (stopPropagation ev) StopPropagation
             (call_capability (preventDefault ev) PreventDefault s))"
    and "fst (clearErrors s2) = Inr ()"
    and "s4 = (snd (clearErrors s2))\<lparr>st_isSubmitting := True\<rparr>"
    and "(validationSchema c = None \<and> s5 = s4) \<or>
         (\<exists>sch. validationSchema c = Some sch \<and>
            validate_values sch (st_values s2) s4 = (Inr True, s5))"
  shows "submit_body c event s = call_onSubmit c submit (st_values s2) s5"
  using assms by (cases "clearErrors s2"; cases event) (auto simp add: submit_body_def Let_def)

text \<open>A thrown primitive is not ignored by the catch block of \<open>validateFieldSync\<close>: the test
  \<open>'path' in error\<close> throws a TypeError, which reaches the caller.\<close>

lemma thrown_primitive_rethrown:
  "validationSchema c = Some sch \<Longrightarrow>
   validateSyncAt sch field (heap s) (st_values s) = Rejected (Primitive v) \<Longrightarrow>
   \<exists>msg. validateFieldSync c field s = (Inl (TypeError msg), s)"
  by (auto simp add: validateFieldSync_def setYupValidationErrors_def)


subsection \<open>Snapshots, heap extension and clone\<close>

lemma closed_ref:
  "closed (snapshot_of h n (JRef a)) \<Longrightarrow> a < length h \<and> 0 < n"
  by (cases n) (auto split: if_splits)

lemma snapshot_of_append:
  "closed (snapshot_of h n v) \<Longrightarrow> snapshot_of (h @ ext) n v = snapshot_of h n v"
proof (induction n arbitrary: v)
  case 0
  then show ?case by simp
next
  case (Suc n)
  show ?case
  proof (cases v)
    case (JRef a)
    with Suc.prems have a: "a < length h" using closed_ref by blast
    show ?thesis
    proof (cases "h ! a")
      case (Arr xs)
      with Suc.prems JRef a have "\<forall>x \<in> set xs. closed (snapshot_of h n x)" by simp
      with Suc.IH have "map (snapshot_of (h @ ext) n) xs = map (snapshot_of h n) xs" by simp
      with JRef a Arr show ?thesis by (simp add: nth_append)
    next
      case (Obj kvs)
      with Suc.prems JRef a have "\<forall>e \<in> set kvs. closed (snapshot_of h n (snd e))" by auto
      with Suc.IH have "map (\<lambda>(k, x). (k, snapshot_of (h @ ext) n x)) kvs =
          map (\<lambda>(k, x). (k, snapshot_of h n x)) kvs" by auto
      with JRef a Obj show ?thesis by (simp add: nth_append)
    qed
  qed simp_all
qed

lemma snapshot_of_copy:
  assumes "closed (snapshot_of h n v)" and "copy_of h (h @ ext) v v'"
  shows "snapshot_of (h @ ext) n v' = snapshot_of h n v"
proof (cases v)
  case (JRef b)
  with assms(1) have b: "b < length h" "0 < n" using closed_ref by blast+
  then obtain m where n: "n = Suc m" by (cases n) auto
  from assms(2) JRef b obtain b' where b': "v' = JRef b'" "b' < length (h @ ext)"
    "(h @ ext) ! b' = h ! b" by (auto simp: copy_of_def)
  show ?thesis
  proof (cases "h ! b")
    case (Arr xs)
    with assms(1) JRef b n have "\<forall>x \<in> set xs. closed (snapshot_of h m x)" by simp
    then have "map (snapshot_of (h @ ext) m) xs = map (snapshot_of h m) xs"
      by (simp add: snapshot_of_append)
    with JRef b b' n Arr show ?thesis by simp
  next
    case (Obj kvs)
    with assms(1) JRef b n have "\<forall>e \<in> set kvs. closed (snapshot_of h m (snd e))" by auto
    then have "map (\<lambda>(k, x). (k, snapshot_of (h @ ext) m x)) kvs =
          map (\<lambda>(k, x). (k, snapshot_of h m x)) kvs" by (auto simp add: snapshot_of_append)
    with JRef b b' n Obj show ?thesis by simp
  qed
next
qed (use assms in \<open>cases n; simp add: copy_of_def\<close>)+


lemma foldl_set_prop_fresh:
  "distinct (map fst (acc @ es)) \<Longrightarrow>
   foldl (\<lambda>acc (k, v). set_prop k v acc) acc es = acc @ es"
proof (induction es arbitrary: acc)
  case Nil
  then show ?case by simp
next
  case (Cons e es)
  obtain k v where e: "e = (k, v)" by (cases e)
  from Cons.prems e have "k \<notin> set (map fst acc)" by auto
  then have sp: "set_prop k v acc = acc @ [(k, v)]"
    by (induction acc) auto
  from Cons.prems e have "distinct (map fst ((acc @ [(k, v)]) @ es))" by simp
  from Cons.IH [OF this] show ?case by (simp add: e sp)
qed

lemma fromEntries_distinct: "distinct (map fst es) \<Longrightarrow> fromEntries es = es"
  using foldl_set_prop_fresh [of "[]" es] by (simp add: fromEntries_def)

lemma clone_entries_default:
  "d \<noteq> JUndefined \<Longrightarrow> clone_entries d es h = (map (\<lambda>e. (fst e, d)) es, h)"
  by (induction es) (auto simp: clone_field_def)

lemma copy_of_grow: "copy_of h h1 v v' \<Longrightarrow> copy_of h (h1 @ ext) v v'"
  by (cases v) (auto simp: copy_of_def nth_append)

lemma copy_of_shrink: "copy_of (h @ ext1) h2 v v' \<Longrightarrow> copy_of h h2 v v'"
  by (cases v) (auto simp: copy_of_def nth_append)

lemma clone_field_copies:
  "clone_field JUndefined v h = (v1, h1) \<Longrightarrow> \<exists>ext. h1 = h @ ext \<and> copy_of h h1 v v1"
proof (cases v)
  case (JRef b)
  assume "clone_field JUndefined v h = (v1, h1)"
  with JRef have "v1 = JRef (length h)" "h1 = h @ [cell_at h b]"
    by (auto simp: clone_field_def alloc_def split: cell.splits)
  with JRef show ?thesis by (auto simp: copy_of_def cell_at_def)
qed (auto simp: clone_field_def copy_of_def)

lemma clone_entries_copies:
  "clone_entries JUndefined es h = (es', h') \<Longrightarrow>
   \<exists>ext. h' = h @ ext \<and> list_all2 (entry_copy h h') es es'"
proof (induction es arbitrary: h es' h')
  case Nil
  then show ?case by simp
next
  case (Cons e es)
  obtain k v where e: "e = (k, v)" by (cases e)
  obtain v1 h1 where f: "clone_field JUndefined v h = (v1, h1)" by fastforce
  obtain rest h2 where r: "clone_entries JUndefined es h1 = (rest, h2)" by fastforce
  from Cons.prems e f r have res: "es' = (k, v1) # rest" "h' = h2" by simp_all
  from clone_field_copies [OF f] obtain ext1 where h1: "h1 = h @ ext1"
    and c1: "copy_of h h1 v v1" by blast
  from Cons.IH [OF r] obtain ext2 where h2: "h2 = h1 @ ext2"
    and l2: "list_all2 (entry_copy h1 h2) es rest" by blast
  have "copy_of h h2 v v1"
    using c1 unfolding h2 by (rule copy_of_grow)
  moreover have "list_all2 (entry_copy h h2) es rest"
    using l2 unfolding h1 entry_copy_def
    by (rule list_all2_mono) (auto intro: copy_of_shrink)
  ultimately have "list_all2 (entry_copy h h2) ((k, v) # es) ((k, v1) # rest)"
    by (simp add: entry_copy_def)
  moreover have "h2 = h @ (ext1 @ ext2)" by (simp add: h1 h2)
  ultimately show ?case
    unfolding res e by blast
qed

lemma entry_copy_keys: "list_all2 (entry_copy h h') es es' \<Longrightarrow> map fst es' = map fst es"
  by (induction rule: list_all2_induct) (auto simp: entry_copy_def)


lemma fromEntries_const:
  "distinct (map fst es) \<Longrightarrow>
   fromEntries (map (\<lambda>e. (fst e, d)) es) = map (\<lambda>e. (fst e, d)) es"
  by (rule fromEntries_distinct) (simp add: comp_def)

lemma clone_with_default:
  assumes "d \<noteq> JUndefined" and "i < length h" and "h ! i = Obj es"
    and "distinct (map fst es)"
  shows "clone (JRef i) d h = Inr (JRef (length h), h @ [Obj (map (\<lambda>e. (fst e, d)) es)])"
  using assms
  by (simp add: clone_def own_entries_def cell_at_def alloc_def fromEntries_const
      clone_entries_default)

lemma newForm_structure:
  assumes "initialValues c = JRef a" and "a < length h" and "h ! a = Obj kvs"
    and "distinct (map fst kvs)" and "clone_entries JUndefined kvs h = (es', h1)"
  shows "newForm (Some c) h =
       Inr \<lparr>heap = h1 @ [Obj es', Obj (map (\<lambda>e. (fst e, JNull)) es'),
                 Obj (map (\<lambda>e. (fst e, JBool False)) es'), Obj es'],
            st_initialValues = JRef (length h1),
            st_isSubmitting = False, st_isValidating = False,
            st_errors = JRef (length h1 + 1),
            st_touched = JRef (length h1 + 2),
            st_values = JRef (length h1 + 3), trace = []\<rparr>"
proof -
  note ce = assms(5)
  from clone_entries_copies [OF ce] obtain ext where h1: "h1 = h @ ext"
    and l: "list_all2 (entry_copy h h1) kvs es'" by blast
  have keys: "map fst es' = map fst kvs" using l by (rule entry_copy_keys)
  with assms(4) have d: "distinct (map fst es')" by simp
  define i where "i = length h1"
  define h2 where "h2 = h1 @ [Obj es']"
  define h3 where "h3 = h2 @ [Obj (map (\<lambda>e. (fst e, JNull)) es')]"
  have c1: "clone (JRef a) JUndefined h = Inr (JRef i, h2)"
    using assms(2,3) ce d
    by (simp add: clone_def own_entries_def cell_at_def alloc_def fromEntries_distinct
        i_def h2_def)
  have i2: "i < length h2" "h2 ! i = Obj es'" "length h2 = i + 1"
    by (simp_all add: i_def h2_def nth_append)
  have i3: "i < length h3" "h3 ! i = Obj es'" "length h3 = i + 2"
    using i2 by (simp_all add: h3_def nth_append)
  have c2: "clone (JRef i) JNull h2 = Inr (JRef (i + 1), h3)"
    using clone_with_default [OF _ i2(1,2) d, of JNull] by (simp add: h3_def i2(3))
  have c3: "clone (JRef i) (JBool False) h3 =
      Inr (JRef (i + 2), h3 @ [Obj (map (\<lambda>e. (fst e, JBool False)) es')])"
    using clone_with_default [OF _ i3(1,2) d, of "JBool False"] by (simp add: i3(3))
  have "newForm (Some c) h =
       Inr \<lparr>heap = h3 @ [Obj (map (\<lambda>e. (fst e, JBool False)) es'), Obj es'],
            st_initialValues = JRef i,
            st_isSubmitting = False, st_isValidating = False,
            st_errors = JRef (i + 1),
            st_touched = JRef (i + 2),
            st_values = JRef (i + 3), trace = []\<rparr>"
    using assms(1) c1 c2 c3 i3
    by (simp add: newForm_def alloc_def spread_def cell_at_def nth_append)
  then show ?thesis
    by (simp add: h3_def h2_def i_def)
qed

lemma entry_copy_grow:
  "list_all2 (entry_copy h h1) es es' \<Longrightarrow> list_all2 (entry_copy h (h1 @ ext)) es es'"
  by (erule list_all2_mono) (auto simp: entry_copy_def intro: copy_of_grow)

lemma snapshot_entries_copy:
  "list_all2 (entry_copy h (h @ ext)) kvs es' \<Longrightarrow>
   \<forall>e \<in> set kvs. closed (snapshot_of h m (snd e)) \<Longrightarrow>
   map (\<lambda>(k, x). (k, snapshot_of (h @ ext) m x)) es' =
     map (\<lambda>(k, x). (k, snapshot_of h m x)) kvs"
proof (induction rule: list_all2_induct)
  case Nil
  then show ?case by simp
next
  case (Cons e es e' es')
  then show ?case
    by (cases e; cases e') (simp add: entry_copy_def snapshot_of_copy)
qed

lemma snapshot_of_obj:
  "i < length h \<Longrightarrow> h ! i = Obj kvs \<Longrightarrow>
   snapshot_of h (Suc n) (JRef i) = ObjectOf (map (\<lambda>(k, x). (k, snapshot_of h n x)) kvs)"
  by simp

lemma closed_entries:
  assumes "closed (ObjectOf (map (\<lambda>(k, x). (k, f x)) kvs))" and "e \<in> set kvs"
  shows "closed (f (snd e))"
proof -
  have "map snd (map (\<lambda>(k, x). (k, f x)) kvs) = map (\<lambda>e. f (snd e)) kvs"
    by (induction kvs) auto
  with assms(1) have "\<forall>t \<in> set (map (\<lambda>e. f (snd e)) kvs). closed t"
    by (simp only: closed.simps)
  with assms(2) show ?thesis by simp
qed

lemma snapshot_of_clone:
  assumes "a < length h" and "h ! a = Obj kvs"
    and "list_all2 (entry_copy h (h @ ext)) kvs es'"
    and "i < length (h @ ext)" and "(h @ ext) ! i = Obj es'"
    and "closed (snapshot_of h n (JRef a))"
  shows "snapshot_of (h @ ext) n (JRef i) = snapshot_of h n (JRef a)"
proof -
  from closed_ref [OF assms(6)] have "0 < n" by simp
  then obtain m where n: "n = Suc m" by (cases n) simp_all
  have "closed (ObjectOf (map (\<lambda>(k, x). (k, snapshot_of h m x)) kvs))"
    using assms(6) unfolding n snapshot_of_obj [OF assms(1,2)] .
  then have "\<forall>e \<in> set kvs. closed (snapshot_of h m (snd e))"
    using closed_entries by blast
  from snapshot_entries_copy [OF assms(3) this] show ?thesis
    unfolding n snapshot_of_obj [OF assms(1,2)] snapshot_of_obj [OF assms(4,5)]
    by (simp only:)
qed

lemma copy_is_fresh:
  "list_all2 (entry_copy h h1) es es' \<Longrightarrow>
   \<forall>e' \<in> set es'. (case snd e' of JRef b \<Rightarrow> length h \<le> b \<and> b < length h1 | _ \<Rightarrow> True)"
proof (induction rule: list_all2_induct)
  case Nil
  then show ?case by simp
next
  case (Cons e es e' es')
  from Cons(1) have "case snd e' of JRef b \<Rightarrow> length h \<le> b \<and> b < length h1 | _ \<Rightarrow> True"
    by (cases "snd e") (auto simp: entry_copy_def copy_of_def)
  with Cons show ?case by simp
qed

lemma snapshot_of_fresh:
  assumes "\<forall>e' \<in> set es'. (case snd e' of JRef b \<Rightarrow> k \<le> b \<and> b < length h1 | _ \<Rightarrow> True)"
    and "k \<le> i" and "i < length h1" and "h1 ! i = Obj es'"
    and "agree_from k h1 h2"
  shows "snapshot_of h2 2 (JRef i) = snapshot_of h1 2 (JRef i)"
proof -
  have one: "snapshot_of h2 (Suc 0) (snd e') = snapshot_of h1 (Suc 0) (snd e')"
    if "e' \<in> set es'" for e'
  proof (cases "snd e'")
    case (JRef b)
    from assms(1) that have "case snd e' of JRef b \<Rightarrow> k \<le> b \<and> b < length h1 | _ \<Rightarrow> True"
      by blast
    with JRef have b: "k \<le> b" "b < length h1" by simp_all
    with assms(5) have "h2 ! b = h1 ! b" "b < length h2" by (auto simp: agree_from_def)
    with JRef b show ?thesis by (simp split: cell.splits)
  qed simp_all
  have "map (\<lambda>(k, x). (k, snapshot_of h2 (Suc 0) x)) es' =
      map (\<lambda>(k, x). (k, snapshot_of h1 (Suc 0) x)) es'"
  proof (rule map_cong [OF refl])
    fix e' assume "e' \<in> set es'"
    from one [OF this]
    show "(case e' of (k, x) \<Rightarrow> (k, snapshot_of h2 (Suc 0) x)) =
        (case e' of (k, x) \<Rightarrow> (k, snapshot_of h1 (Suc 0) x))"
      by (cases e') (simp del: snapshot_of.simps)
  qed
  moreover have i2: "i < length h2" "h2 ! i = Obj es'"
    using assms(2-5) by (auto simp: agree_from_def)
  ultimately show ?thesis
    unfolding numeral_2_eq_2 snapshot_of_obj [OF assms(3,4)] snapshot_of_obj [OF i2]
    by (simp only:)
qed

subsection \<open>Key sets\<close>

lemma valid_ref_append:
  "valid_ref h v \<Longrightarrow> valid_ref (h @ ext) v \<and> keys_of (h @ ext) v = keys_of h v"
  by (cases v) (simp_all add: valid_ref_def keys_of_def spread_def cell_at_def nth_append)

lemma keys_of_new:
  "valid_ref (h @ ext @ [Obj kvs]) (JRef (length h + length ext))"
  "keys_of (h @ ext @ [Obj kvs]) (JRef (length h + length ext)) = set (map fst kvs)"
  by (simp_all add: valid_ref_def keys_of_def spread_def cell_at_def nth_append)

lemma form_within_frame [simp]:
  "form_within K (s\<lparr>trace := t\<rparr>) = form_within K s"
  "form_within K (s\<lparr>st_isSubmitting := b\<rparr>) = form_within K s"
  "form_within K (s\<lparr>st_isValidating := b\<rparr>) = form_within K s"
  by (simp_all add: form_within_def)

lemma store_errors:
  assumes "form_within K s" and "set (map fst kvs) \<subseteq> K"
  shows "form_within K (s\<lparr>heap := heap s @ ext @ [Obj kvs],
                           st_errors := JRef (length (heap s) + length ext)\<rparr>)"
  using assms valid_ref_append [of "heap s" _ "ext @ [Obj kvs]"]
    keys_of_new [of "heap s" ext kvs]
  by (simp add: form_within_def)

lemma store_touched:
  assumes "form_within K s" and "set (map fst kvs) \<subseteq> K"
  shows "form_within K (s\<lparr>heap := heap s @ ext @ [Obj kvs],
                           st_touched := JRef (length (heap s) + length ext)\<rparr>)"
  using assms valid_ref_append [of "heap s" _ "ext @ [Obj kvs]"]
    keys_of_new [of "heap s" ext kvs]
  by (simp add: form_within_def)

lemma store_values:
  assumes "form_within K s" and "set (map fst kvs) = K"
  shows "form_within K (s\<lparr>heap := heap s @ ext @ [Obj kvs],
                           st_values := JRef (length (heap s) + length ext)\<rparr>)"
  using assms valid_ref_append [of "heap s" _ "ext @ [Obj kvs]"]
    keys_of_new [of "heap s" ext kvs]
  by (simp add: form_within_def)

lemma store_initialValues:
  assumes "form_within K s" and "set (map fst kvs) = K"
  shows "form_within K (s\<lparr>heap := heap s @ ext @ [Obj kvs],
                           st_initialValues := JRef (length (heap s) + length ext)\<rparr>)"
  using assms valid_ref_append [of "heap s" _ "ext @ [Obj kvs]"]
    keys_of_new [of "heap s" ext kvs]
  by (simp add: form_within_def)

lemma set_prop_image: "fst ` set (set_prop k v kvs) = insert k (fst ` set kvs)"
  using set_prop_keys [of k v kvs] by simp

lemma foldl_set_prop_image:
  "fst ` set (foldl (\<lambda>acc (k, v). set_prop k v acc) acc es) = fst ` set acc \<union> fst ` set es"
proof (induction es arbitrary: acc)
  case Nil
  then show ?case by simp
next
  case (Cons e es)
  obtain k v where e: "e = (k, v)" by (cases e)
  show ?case by (simp add: e Cons.IH set_prop_image)
qed

lemma fromEntries_image: "fst ` set (fromEntries es) = fst ` set es"
  by (simp add: fromEntries_def foldl_set_prop_image)

lemma own_entries_spread:
  "v \<noteq> JUndefined \<Longrightarrow> v \<noteq> JNull \<Longrightarrow> own_entries h v = Inr (spread h v)"
  by (cases v) (simp_all add: own_entries_def spread_def)

lemma setFieldError_within:
  assumes "form_within K s" and "field \<in> K"
  shows "form_within K (setFieldError field msg s)"
proof -
  have "set (map fst (set_prop field msg (spread (heap s) (st_errors s)))) \<subseteq> K"
    using assms by (simp add: set_prop_image form_within_def keys_of_def)
  from store_errors [OF assms(1) this, of "[]"] show ?thesis
    by (simp add: setFieldError_def alloc_def)
qed

lemma setFieldTouched_within:
  assumes "form_within K s" and "field \<in> K"
  shows "form_within K (snd (setFieldTouched field v s))"
proof -
  have "set (map fst (set_prop field b (spread (heap s) (st_touched s)))) \<subseteq> K" for b
    using assms by (simp add: set_prop_image form_within_def keys_of_def)
  from store_touched [OF assms(1) this, of "[]"] assms(1) show ?thesis
    by (cases v) (simp_all add: setFieldTouched_def alloc_def)
qed

lemma clearErrors_within:
  assumes "form_within K s"
  shows "form_within K (snd (clearErrors s))"
proof -
  from assms obtain a where iv: "st_initialValues s = JRef a"
    by (cases "st_initialValues s") (simp_all add: form_within_def valid_ref_def)
  let ?kvs = "fromEntries (map (\<lambda>e. (fst e, JNull)) (spread (heap s) (JRef a)))"
  have "set (map fst ?kvs) \<subseteq> K"
    using assms iv by (simp add: fromEntries_image form_within_def keys_of_def image_image)
  from store_errors [OF assms this, of "[]"] show ?thesis
    by (simp add: clearErrors_def clone_def iv own_entries_spread clone_entries_default
        alloc_def)
qed

lemma setInitialValues_within:
  assumes "form_within K s" and "iv = JUndefined \<or> iv = JNull \<or> keys_of (heap s) iv = K"
  shows "form_within K (snd (setInitialValues iv s))"
proof (cases "iv = JUndefined \<or> iv = JNull")
  case True
  with assms(1) show ?thesis
    by (auto simp add: setInitialValues_def clone_def own_entries_def)
next
  case False
  with assms(2) have k: "keys_of (heap s) iv = K" by simp
  obtain es' h1 where ce: "clone_entries JUndefined (spread (heap s) iv) (heap s) = (es', h1)"
    by fastforce
  from clone_entries_copies [OF ce] obtain ext where h1: "h1 = heap s @ ext"
    and l: "list_all2 (entry_copy (heap s) h1) (spread (heap s) iv) es'" by blast
  have "set (map fst (fromEntries es')) = K"
    using arg_cong [OF entry_copy_keys [OF l], of set] k by (simp add: fromEntries_image keys_of_def)
  from store_initialValues [OF assms(1) this, of ext] show ?thesis
    using False ce h1
    by (simp add: setInitialValues_def clone_def own_entries_spread alloc_def)
qed

lemma reset_within: "form_within K s \<Longrightarrow> form_within K (reset s)"
  by (simp add: reset_def form_within_def)

lemma setYupValidationErrors_within:
  assumes "form_within K s" and "set (field_error_keys (Rejected error)) \<subseteq> K"
  shows "form_within K (snd (setYupValidationErrors error s))"
proof (cases error)
  case (Primitive v)
  with assms(1) show ?thesis by (simp add: setYupValidationErrors_def)
next
  case (ErrorObject nm msg p es inn)
  show ?thesis
  proof (cases "p \<noteq> PathAbsent \<and> isArray es")
    case True
    with assms(2) ErrorObject have "property_key p \<in> K" by simp
    with True ErrorObject assms(1) show ?thesis
      by (simp add: setYupValidationErrors_def setFieldError_within)
  next
    case False
    with ErrorObject assms(1) show ?thesis
      by (auto simp add: setYupValidationErrors_def console_error_def)
  qed
qed

lemma validateField_within:
  assumes "form_within K s" and "config_within K c" and "field \<in> K"
  shows "form_within K (snd (validateField c field s))"
    and "form_within K (snd (validateFieldSync c field s))"
proof -
  have none: "set (field_error_keys (Rejected (TypeError m))) \<subseteq> K" for m
    by (simp add: TypeError_def)
  show "form_within K (snd (validateField c field s))"
  proof (cases "validationSchema c")
    case None
    then show ?thesis
      using setYupValidationErrors_within [OF assms(1) none]
      by (simp add: validateField_def)
  next
    case (Some sch)
    with assms(2) have "set (field_error_keys (validateAt sch field (heap s) (st_values s))) \<subseteq> K"
      by (simp add: config_within_def)
    with Some assms(1,3) show ?thesis
      by (cases "validateAt sch field (heap s) (st_values s)")
        (simp_all add: validateField_def setFieldError_within setYupValidationErrors_within)
  qed
  show "form_within K (snd (validateFieldSync c field s))"
  proof (cases "validationSchema c")
    case None
    then show ?thesis
      using setYupValidationErrors_within [OF assms(1) none]
      by (simp add: validateFieldSync_def)
  next
    case (Some sch)
    with assms(2)
    have "set (field_error_keys (validateSyncAt sch field (heap s) (st_values s))) \<subseteq> K"
      by (simp add: config_within_def)
    with Some assms(1,3) show ?thesis
      by (cases "validateSyncAt sch field (heap s) (st_values s)")
        (simp_all add: validateFieldSync_def setFieldError_within
          setYupValidationErrors_within)
  qed
qed


lemma setFieldValue_within:
  assumes "form_within K s" and "config_within K c" and "field \<in> K"
  shows "form_within K (snd (setFieldValue c field v b s))"
proof -
  have "fst ` set (set_prop field v (spread (heap s) (st_values s))) = K"
    using assms(1,3) by (auto simp add: set_prop_image form_within_def keys_of_def)
  then have "set (map fst (set_prop field v (spread (heap s) (st_values s)))) = K" by simp
  from store_values [OF assms(1) this, of "[]"]
  have s': "form_within K (s\<lparr>heap := heap s @
      [Obj (set_prop field v (spread (heap s) (st_values s)))],
      st_values := JRef (length (heap s))\<rparr>)" by simp
  show ?thesis
    using s' validateField_within(2) [OF s' assms(2,3)]
    by (simp add: setFieldValue_def alloc_def Let_def)
qed

lemma fire_and_forget_within:
  "form_within K (snd r) \<Longrightarrow> form_within K (fire_and_forget r)"
  by (cases r; cases "fst r") (auto simp add: fire_and_forget_def)

lemma handleBlur_within:
  assumes "form_within K s" and "config_within K c" and "el_name target \<in> K"
  shows "form_within K (snd (handleBlur c target s))"
    and "form_within K (snd (handleFocus c target s))"
proof -
  let ?r = "setFieldTouched (el_name target) JUndefined s"
  have t: "form_within K (snd ?r)"
    using assms(1,3) by (rule setFieldTouched_within)
  have v: "form_within K (fire_and_forget (validateField c (el_name target) (snd ?r)))"
    using validateField_within(1) [OF t assms(2,3)] by (rule fire_and_forget_within)
  show "form_within K (snd (handleBlur c target s))"
    using t v by (cases ?r; cases "fst ?r") (auto simp add: handleBlur_def)
  show "form_within K (snd (handleFocus c target s))"
    using t v by (cases ?r; cases "fst ?r") (auto simp add: handleFocus_def)
qed

lemma run_helper_within:
  assumes "form_within K s" and "config_within K c" and "helper_field call \<in> K"
  shows "form_within K (run_helper c call s)"
  using assms
  by (cases call) (simp_all add: run_helper_def setFieldError_within setFieldValue_within)

lemma run_helpers_within:
  "form_within K s \<Longrightarrow> config_within K c \<Longrightarrow> set (map helper_field calls) \<subseteq> K \<Longrightarrow>
   form_within K (foldl (\<lambda>acc call. run_helper c call acc) s calls)"
  by (induction calls arbitrary: s) (simp_all add: run_helper_within)

lemma call_onSubmit_within:
  assumes "form_within K s" and "config_within K c" and "onSubmit c = Some submit"
  shows "form_within K (snd (call_onSubmit c submit v s))"
proof -
  obtain calls result where r: "submit (heap s) v = (calls, result)" by fastforce
  from assms(2,3) have "set (map helper_field (fst (submit (heap s) v))) \<subseteq> K"
    by (simp add: config_within_def)
  then have "set (map helper_field calls) \<subseteq> K"
    by (simp add: r)
  with assms(1,2) have
    "form_within K (foldl (\<lambda>acc call. run_helper c call acc)
       (s\<lparr>trace := trace s @ [OnSubmit v]\<rparr>) calls)"
    by (simp add: run_helpers_within)
  with r show ?thesis
    by (cases result) (simp_all add: call_onSubmit_def)
qed


lemma call_capability_within [simp]:
  "form_within K (call_capability cap eff s) = form_within K s"
  by (cases cap) (simp_all add: call_capability_def)

lemma reduce_inner_keys:
  "reduce_inner fs acc = Inr r \<Longrightarrow> fst ` set r \<subseteq> fst ` set acc \<union> set (inner_paths fs)"
proof (induction fs acc rule: reduce_inner.induct)
  case (1 acc)
  then show ?case by auto
next
  case (2 fs acc)
  then show ?case by simp
next
  case (3 m p fs acc)
  from 3 have "fst ` set r \<subseteq> fst ` set (set_prop (property_key p) m acc) \<union> set (inner_paths fs)"
    by simp
  then show ?case by (auto simp add: set_prop_image)
qed

lemma validate_values_within:
  assumes "form_within K s" and "set (inner_keys (validate sch (heap s) v)) \<subseteq> K"
  shows "form_within K (snd (validate_values sch v s))"
proof (cases "validate sch (heap s) v")
  case Resolved
  with assms(1) show ?thesis by (simp add: validate_values_def)
next
  case (Rejected error)
  show ?thesis
  proof (cases error)
    case (Primitive x)
    with Rejected assms(1) show ?thesis by (simp add: validate_values_def)
  next
    case (ErrorObject nm msg p es inn)
    show ?thesis
    proof (cases inn)
      case InnerFalsy
      with Rejected ErrorObject assms(1) show ?thesis by (simp add: validate_values_def)
    next
      case InnerNotArray
      with Rejected ErrorObject assms(1) show ?thesis by (simp add: validate_values_def)
    next
      case (InnerArray fs)
      with Rejected ErrorObject assms(2) have k: "set (inner_paths fs) \<subseteq> K" by simp
      show ?thesis
      proof (cases "reduce_inner fs []")
        case (Inl e)
        with Rejected ErrorObject InnerArray assms(1) show ?thesis
          by (simp add: validate_values_def)
      next
        case (Inr r)
        from reduce_inner_keys [OF Inr] k have "set (map fst r) \<subseteq> K" by auto
        from store_errors [OF assms(1) this, of "[]"]
        show ?thesis
          using Rejected ErrorObject InnerArray Inr
          by (simp add: validate_values_def alloc_def form_within_def)
      qed
    qed
  qed
qed

lemma handleSubmit_within:
  assumes "form_within K s" and "config_within K c"
  shows "form_within K (snd (handleSubmit c event s))"
proof -
  have cw: "set (inner_keys (validate sch h v)) \<subseteq> K" if "validationSchema c = Some sch"
    for sch h v
    using assms(2) that by (simp add: config_within_def)
  have "form_within K (snd (submit_body c event s))"
    using assms(1)
    by (auto simp add: submit_body_def Let_def case_prod_beta
        split: option.splits sum.splits bool.splits
        intro!: clearErrors_within validate_values_within call_onSubmit_within cw assms(2))
  then show ?thesis
    by (simp add: handleSubmit_def case_prod_beta)
qed

lemma perform_within:
  assumes "form_within K s" and "config_within K c" and "operation_within K (heap s) a"
  shows "form_within K (snd (perform up c a s))"
  using assms
  by (cases a)
    (simp_all add: clearErrors_within handleBlur_within handleSubmit_within reset_within
      setInitialValues_within setFieldError_within setFieldTouched_within
      setFieldValue_within validateField_within handleChange_def handleInput_def)

lemma run_within:
  "form_within K s \<Longrightarrow> config_within K c \<Longrightarrow> operations_within up c K as s \<Longrightarrow>
   form_within K (run up c as s)"
  by (induction as arbitrary: s) (simp_all add: perform_within)

lemma newForm_within:
  assumes "initialValues c = JRef a" and "a < length h" and "h ! a = Obj kvs"
    and "distinct (map fst kvs)" and "newForm (Some c) h = Inr s"
  shows "form_within (set (map fst kvs)) s"
proof -
  obtain es' h1 where ce: "clone_entries JUndefined kvs h = (es', h1)" by fastforce
  from clone_entries_copies [OF ce] obtain ext where
    l: "list_all2 (entry_copy h h1) kvs es'" by blast
  have keys: "fst ` set es' = fst ` set kvs"
    using arg_cong [OF entry_copy_keys [OF l], of set] by simp
  from newForm_structure [OF assms(1-4) ce] assms(5) keys show ?thesis
    by (auto simp add: form_within_def valid_ref_def keys_of_def spread_def cell_at_def
        nth_append image_image)
qed

section \<open>Creation\<close>

text \<open>
  C8. \<open>newForm\<close> fails with a \<open>TypeError\<close> when the configuration is absent (undefined) and
  when its \<open>initialValues\<close> is absent or falsy; the result is the error, so no form instance
  is produced.
\<close>

theorem newForm_config_error:
  "config = None \<or> (\<exists>c. config = Some c \<and> \<not> truthy (initialValues c))
     \<Longrightarrow> \<exists>msg. newForm config h = Inl (TypeError msg)"
  by (auto simp: newForm_def)

theorem newForm_config_error_witness:
  "newForm None [] =
     Inl (TypeError ''You must provide a config to newForm. Expected config to be an object, received undefined instead.'') \<and>
   \<not> truthy (initialValues (plain_config\<lparr>initialValues := JUndefined\<rparr>)) \<and>
   newForm (Some (plain_config\<lparr>initialValues := JUndefined\<rparr>)) [] =
     Inl (TypeError ''You must specify initialValues with an object to FormConfig.'')"
  using newForm_config_error [of None "[]"]
    newForm_config_error [of "Some (plain_config\<lparr>initialValues := JUndefined\<rparr>)" "[]"]
  by (simp add: newForm_def)

text \<open>
  C4, as the claim states it, fails for mutations below the first level. With the initial
  values \<open>{inventory: [{id: 1}]}\<close>, the assignment \<open>I.inventory[0].id = 2\<close> after creation (a
  write to the cell at address 0, which the caller's object reaches through its array)
  changes what the values store and the initial-values store of the form contain.
\<close>

theorem newForm_deep_mutation_counterexample:
  "newForm (Some nested_config) nested_heap = Inr nested_form \<and>
   snapshot_of (heap nested_form) 3 (st_values nested_form) =
     ObjectOf [(''inventory'', ArrayOf [ObjectOf [(''id'', Leaf (JNum 1))]])] \<and>
   snapshot_of (assign_prop 0 ''id'' (JNum 2) (heap nested_form)) 3 (st_values nested_form) =
     ObjectOf [(''inventory'', ArrayOf [ObjectOf [(''id'', Leaf (JNum 2))]])] \<and>
   snapshot_of (assign_prop 0 ''id'' (JNum 2) (heap nested_form)) 3
       (st_initialValues nested_form) =
     ObjectOf [(''inventory'', ArrayOf [ObjectOf [(''id'', Leaf (JNum 2))]])]"
proof -
  have "newForm (Some nested_config) nested_heap = Inr nested_form"
    by (simp add: nested_config_def nested_heap_def nested_form_def plain_config_def
        newForm_def clone_def own_entries_def cell_at_def clone_field_def alloc_def
        fromEntries_def spread_def)
  moreover have "snapshot_of (heap nested_form) 3 (st_values nested_form) =
      ObjectOf [(''inventory'', ArrayOf [ObjectOf [(''id'', Leaf (JNum 1))]])]"
    by (simp add: nested_heap_def nested_form_def numeral_3_eq_3)
  moreover have
    "snapshot_of (assign_prop 0 ''id'' (JNum 2) (heap nested_form)) 3 (st_values nested_form) =
      ObjectOf [(''inventory'', ArrayOf [ObjectOf [(''id'', Leaf (JNum 2))]])]"
    "snapshot_of (assign_prop 0 ''id'' (JNum 2) (heap nested_form)) 3
        (st_initialValues nested_form) =
      ObjectOf [(''inventory'', ArrayOf [ObjectOf [(''id'', Leaf (JNum 2))]])]"
    by (simp_all add: nested_heap_def nested_form_def assign_prop_def numeral_3_eq_3)
  ultimately show ?thesis by simp
qed

text \<open>
  C4, amended. Let the initial values be an object of the heap with distinct keys. Then
  \<open>newForm\<close> returns a form, and
  \<^item> if the initial values are a finite value of depth at most \<open>n\<close>, the values store and the
    initial-values store hold that same value (they deep-equal \<open>I\<close>);
  \<^item> whatever is done later to the cells that existed before the creation (to \<open>I\<close> and to
    anything reachable from it, at any depth), the top-level object of each of the two stores
    and the array or object held directly in each of its fields keep their properties and
    elements: these are fresh copies. What lies deeper is shared with \<open>I\<close>, by reference.
\<close>

theorem newForm_copies_one_level:
  assumes "initialValues c = JRef a" and "a < length h" and "h ! a = Obj kvs"
    and "distinct (map fst kvs)"
  shows "\<exists>s. newForm (Some c) h = Inr s \<and>
     (closed (snapshot_of h n (JRef a)) \<longrightarrow>
        snapshot_of (heap s) n (st_values s) = snapshot_of h n (JRef a) \<and>
        snapshot_of (heap s) n (st_initialValues s) = snapshot_of h n (JRef a)) \<and>
     (\<forall>h2. agree_from (length h) (heap s) h2 \<longrightarrow>
        snapshot_of h2 2 (st_values s) = snapshot_of (heap s) 2 (st_values s) \<and>
        snapshot_of h2 2 (st_initialValues s) = snapshot_of (heap s) 2 (st_initialValues s))"
proof -
  obtain es' h1 where ce: "clone_entries JUndefined kvs h = (es', h1)" by fastforce
  from clone_entries_copies [OF ce] obtain ext where h1: "h1 = h @ ext"
    and l1: "list_all2 (entry_copy h h1) kvs es'" by blast
  define more where "more = ext @ [Obj es', Obj (map (\<lambda>e. (fst e, JNull)) es'),
                 Obj (map (\<lambda>e. (fst e, JBool False)) es'), Obj es']"
  define i where "i = length h1"
  define s where "s = \<lparr>heap = h @ more, st_initialValues = JRef i,
            st_isSubmitting = False, st_isValidating = False,
            st_errors = JRef (i + 1), st_touched = JRef (i + 2),
            st_values = JRef (i + 3), trace = []\<rparr>"
  have nf: "newForm (Some c) h = Inr s"
    using newForm_structure [OF assms ce] by (simp add: s_def more_def i_def h1)
  have hs: "heap s = h @ more" by (simp add: s_def)
  have l: "list_all2 (entry_copy h (h @ more)) kvs es'"
    using entry_copy_grow [OF l1] by (simp add: more_def h1)
  have iv: "st_initialValues s = JRef i" "i < length (h @ more)" "(h @ more) ! i = Obj es'"
    by (simp_all add: s_def more_def i_def h1 nth_append)
  have vs: "st_values s = JRef (i + 3)" "i + 3 < length (h @ more)"
    "(h @ more) ! (i + 3) = Obj es'"
    by (simp_all add: s_def more_def i_def h1 nth_append)
  have deep: "closed (snapshot_of h n (JRef a)) \<longrightarrow>
        snapshot_of (heap s) n (st_values s) = snapshot_of h n (JRef a) \<and>
        snapshot_of (heap s) n (st_initialValues s) = snapshot_of h n (JRef a)"
  proof
    assume cl: "closed (snapshot_of h n (JRef a))"
    show "snapshot_of (heap s) n (st_values s) = snapshot_of h n (JRef a) \<and>
        snapshot_of (heap s) n (st_initialValues s) = snapshot_of h n (JRef a)"
      unfolding hs iv(1) vs(1)
      using snapshot_of_clone [OF assms(2,3) l iv(2,3) cl]
        snapshot_of_clone [OF assms(2,3) l vs(2,3) cl]
      by (rule conjI [rotated])
  qed
  have fresh: "\<forall>e' \<in> set es'.
      (case snd e' of JRef b \<Rightarrow> length h \<le> b \<and> b < length (h @ more) | _ \<Rightarrow> True)"
    using l by (rule copy_is_fresh)
  have li: "length h \<le> i" "length h \<le> i + 3" by (simp_all add: i_def h1)
  have iso: "\<forall>h2. agree_from (length h) (heap s) h2 \<longrightarrow>
        snapshot_of h2 2 (st_values s) = snapshot_of (heap s) 2 (st_values s) \<and>
        snapshot_of h2 2 (st_initialValues s) = snapshot_of (heap s) 2 (st_initialValues s)"
  proof (intro allI impI)
    fix h2
    assume ag: "agree_from (length h) (heap s) h2"
    show "snapshot_of h2 2 (st_values s) = snapshot_of (heap s) 2 (st_values s) \<and>
        snapshot_of h2 2 (st_initialValues s) = snapshot_of (heap s) 2 (st_initialValues s)"
      unfolding hs iv(1) vs(1)
      using snapshot_of_fresh [OF fresh li(1) iv(2,3) ag [unfolded hs]]
        snapshot_of_fresh [OF fresh li(2) vs(2,3) ag [unfolded hs]]
      by (rule conjI [rotated])
  qed
  show ?thesis
    by (rule exI [of _ s]) (rule conjI nf deep iso)+
qed
theorem newForm_copies_one_level_witness:
  "initialValues nested_config = JRef 2 \<and> 2 < length nested_heap \<and>
   nested_heap ! 2 = Obj [(''inventory'', JRef 1)] \<and>
   distinct (map fst [(''inventory'', JRef 1)]) \<and>
   closed (snapshot_of nested_heap 3 (JRef 2)) \<and>
   agree_from (length nested_heap) (heap nested_form)
     (assign_elem 1 0 JNull (heap nested_form)) \<and>
   newForm (Some nested_config) nested_heap = Inr nested_form \<and>
   snapshot_of (heap nested_form) 3 (st_values nested_form) =
     snapshot_of nested_heap 3 (JRef 2) \<and>
   snapshot_of (heap nested_form) 3 (st_initialValues nested_form) =
     snapshot_of nested_heap 3 (JRef 2) \<and>
   snapshot_of (assign_elem 1 0 JNull (heap nested_form)) 2 (st_values nested_form) =
     snapshot_of (heap nested_form) 2 (st_values nested_form) \<and>
   snapshot_of (assign_elem 1 0 JNull (heap nested_form)) 2 (st_initialValues nested_form) =
     snapshot_of (heap nested_form) 2 (st_initialValues nested_form)"
proof -
  have nf: "newForm (Some nested_config) nested_heap = Inr nested_form"
    by (simp add: nested_config_def nested_heap_def nested_form_def plain_config_def
        newForm_def clone_def own_entries_def cell_at_def clone_field_def alloc_def
        fromEntries_def spread_def)
  have hyps: "initialValues nested_config = JRef 2" "2 < length nested_heap"
    "nested_heap ! 2 = Obj [(''inventory'', JRef 1)]"
    "distinct (map fst [(''inventory'', JRef 1)])"
    by (simp_all add: nested_config_def nested_heap_def plain_config_def)
  have cl: "closed (snapshot_of nested_heap 3 (JRef 2))"
    by (simp add: nested_heap_def numeral_3_eq_3)
  have ag: "agree_from (length nested_heap) (heap nested_form)
      (assign_elem 1 0 JNull (heap nested_form))"
    by (simp add: agree_from_def nested_heap_def nested_form_def assign_elem_def)
  from newForm_copies_one_level [OF hyps, of 3] nf cl ag
  have "snapshot_of (heap nested_form) 3 (st_values nested_form) =
        snapshot_of nested_heap 3 (JRef 2) \<and>
      snapshot_of (heap nested_form) 3 (st_initialValues nested_form) =
        snapshot_of nested_heap 3 (JRef 2) \<and>
      snapshot_of (assign_elem 1 0 JNull (heap nested_form)) 2 (st_values nested_form) =
        snapshot_of (heap nested_form) 2 (st_values nested_form) \<and>
      snapshot_of (assign_elem 1 0 JNull (heap nested_form)) 2
          (st_initialValues nested_form) =
        snapshot_of (heap nested_form) 2 (st_initialValues nested_form)"
    by auto
  with hyps nf cl ag show ?thesis by simp
qed

section \<open>Value coercion\<close>

text \<open>
  C6. The claim is that \<open>getInputValue\<close> on an input of type \<open>file\<close> with N selected files
  returns the sequence of those N files. The function has no branch for \<open>file\<close>: on the input
  of the repository's own test (type \<open>file\<close>, two files, no \<open>value\<close>) it returns the \<open>value\<close>
  property, which is undefined, and not the two files.
\<close>

theorem getInputValue_file_returns_value:
  "getInputValue unary_plus
     \<lparr>el_type = ''file'', el_value = JUndefined, el_name = ''logo'',
      el_files = [\<lparr>file_name = ''file1.txt'', file_size = 8, file_type = ''text/plain''\<rparr>,
                  \<lparr>file_name = ''file2.txt'', file_size = 8, file_type = ''text/plain''\<rparr>]\<rparr>
   = JUndefined"
  by (simp add: getInputValue_def)

section \<open>Field validation\<close>

text \<open>
  C10. Without a validation schema, \<open>validateField\<close> and \<open>validateFieldSync\<close> complete normally
  (nothing is thrown to the caller) and leave the heap and every store as they were: the
  TypeError of the property access on the missing schema is caught, found to have no \<open>path\<close>,
  and logged with \<open>console.error\<close>, which is the only effect.
\<close>

theorem validateField_without_schema:
  "validationSchema c = None \<Longrightarrow>
     validateField c field s =
       (Inr (), s\<lparr>trace := trace s @ [ConsoleError ''Missing path and errors array.'']\<rparr>) \<and>
     validateFieldSync c field s =
       (Inr (), s\<lparr>trace := trace s @ [ConsoleError ''Missing path and errors array.'']\<rparr>)"
  by (simp add: validateField_def validateFieldSync_def setYupValidationErrors_def
      TypeError_def console_error_def)

theorem validateField_without_schema_witness:
  "validationSchema plain_config = None \<and>
   validateField plain_config ''name'' name_form =
     (Inr (), name_form\<lparr>trace := trace name_form @
                [ConsoleError ''Missing path and errors array.'']\<rparr>) \<and>
   validateFieldSync plain_config ''name'' name_form =
     (Inr (), name_form\<lparr>trace := trace name_form @
                [ConsoleError ''Missing path and errors array.'']\<rparr>)"
  using validateField_without_schema [of plain_config "''name''" name_form]
  by (simp add: plain_config_def)

text \<open>
  C9, as the claim states it, fails: a thrown object with a \<open>path\<close> and an empty \<open>errors\<close>
  list is not ignored. With the error of the field \<open>name\<close> set to a message, a
  \<open>validateFieldSync\<close> whose schema throws such an object replaces the message by
  \<open>undefined\<close>, and logs nothing.
\<close>

theorem validateFieldSync_empty_errors_counterexample:
  "validateSyncAt (the (validationSchema empty_errors_config)) ''name''
      (heap (setFieldError ''name'' (JStr ''taken'') name_form))
      (st_values (setFieldError ''name'' (JStr ''taken'') name_form)) =
     Rejected (ErrorObject ''ValidationError'' [] (PathString ''name'') (ErrorsArray [])
        InnerFalsy) \<and>
   spread (heap (setFieldError ''name'' (JStr ''taken'') name_form))
      (st_errors (setFieldError ''name'' (JStr ''taken'') name_form)) =
     [(''name'', JStr ''taken'')] \<and>
   spread
      (heap (snd (validateFieldSync empty_errors_config ''name''
                    (setFieldError ''name'' (JStr ''taken'') name_form))))
      (st_errors (snd (validateFieldSync empty_errors_config ''name''
                    (setFieldError ''name'' (JStr ''taken'') name_form)))) =
     [(''name'', JUndefined)] \<and>
   trace (snd (validateFieldSync empty_errors_config ''name''
                 (setFieldError ''name'' (JStr ''taken'') name_form))) = []"
  by (simp add: empty_errors_config_def empty_errors_def plain_config_def name_form_def
      setFieldError_def alloc_def spread_def cell_at_def validateFieldSync_def
      setYupValidationErrors_def)

text \<open>
  C9, amended. When the schema's single-field validation throws an object that has no
  \<open>path\<close> property or whose \<open>errors\<close> property is not an array, \<open>validateField\<close> and
  \<open>validateFieldSync\<close> return normally and leave the heap and every store as they were; the
  only effect is the call of \<open>console.error\<close>.
\<close>

theorem malformed_validation_error_ignored:
  assumes "validationSchema c = Some sch"
    and "p = PathAbsent \<or> \<not> isArray es"
  shows "(validateAt sch field (heap s) (st_values s) =
            Rejected (ErrorObject nm msg p es inn)
          \<longrightarrow> validateField c field s =
                (Inr (), s\<lparr>trace := trace s @
                    [ConsoleError ''Missing path and errors array.'']\<rparr>)) \<and>
         (validateSyncAt sch field (heap s) (st_values s) =
            Rejected (ErrorObject nm msg p es inn)
          \<longrightarrow> validateFieldSync c field s =
                (Inr (), s\<lparr>trace := trace s @
                    [ConsoleError ''Missing path and errors array.'']\<rparr>))"
  using assms
  by (auto simp add: validateField_def validateFieldSync_def setYupValidationErrors_def
      console_error_def)

theorem malformed_validation_error_ignored_witness:
  "validationSchema pathless_config =
     Some \<lparr>validate = (\<lambda>h v. Resolved),
        validateAt = (\<lambda>field h v. Rejected pathless_error),
        validateSyncAt = (\<lambda>field h v. Rejected pathless_error)\<rparr> \<and>
   validateField pathless_config ''name'' name_form =
     (Inr (), name_form\<lparr>trace := [ConsoleError ''Missing path and errors array.'']\<rparr>) \<and>
   validateFieldSync pathless_config ''name'' name_form =
     (Inr (), name_form\<lparr>trace := [ConsoleError ''Missing path and errors array.'']\<rparr>)"
  using malformed_validation_error_ignored [of pathless_config
      "\<lparr>validate = (\<lambda>h v. Resolved),
        validateAt = (\<lambda>field h v. Rejected pathless_error),
        validateSyncAt = (\<lambda>field h v. Rejected pathless_error)\<rparr>"
      PathAbsent "ErrorsArray [JStr ''network down'']" "''name''" name_form
      "''Error''" "''network down''" InnerFalsy]
  by (simp add: pathless_config_def pathless_error_def name_form_def)


section \<open>Submitting\<close>

text \<open>
  C2. On every exit path of \<open>handleSubmit\<close> (whatever the configuration, the event, the
  outcome of the schema and of \<open>onSubmit\<close>, and whether the result is a normal return or a
  thrown value) \<open>isSubmitting\<close> is \<open>false\<close> when it completes; and whenever validation ran,
  that is when \<open>onSubmit\<close> is callable, a schema is configured and the form holds an
  initial-values object, \<open>isValidating\<close> is \<open>false\<close> too. When validation did not run,
  \<open>isValidating\<close> is as it was.
\<close>

theorem handleSubmit_clears_flags:
  "\<not> st_isSubmitting (snd (handleSubmit c event s)) \<and>
   st_isValidating (snd (handleSubmit c event s)) =
     (if onSubmit c \<noteq> None \<and> validationSchema c \<noteq> None \<and>
         st_initialValues s \<noteq> JUndefined \<and> st_initialValues s \<noteq> JNull
      then False else st_isValidating s)"
proof -
  have "\<not> st_isSubmitting (snd (handleSubmit c event s))"
    by (simp add: handleSubmit_def split: prod.splits)
  moreover have "st_isValidating (snd (handleSubmit c event s)) =
     (if onSubmit c \<noteq> None \<and> validationSchema c \<noteq> None \<and>
         st_initialValues s \<noteq> JUndefined \<and> st_initialValues s \<noteq> JNull
      then False else st_isValidating s)"
    by (auto simp add: handleSubmit_def submit_body_def Let_def case_prod_beta
        split: option.splits sum.splits bool.splits dest: clearErrors_throws clearErrors_ok)
  ultimately show ?thesis by simp
qed

theorem handleSubmit_clears_flags_witness:
  "onSubmit failing_config \<noteq> None \<and> validationSchema failing_config \<noteq> None \<and>
   st_initialValues name_form \<noteq> JUndefined \<and> st_initialValues name_form \<noteq> JNull \<and>
   \<not> st_isSubmitting (snd (handleSubmit failing_config click name_form)) \<and>
   \<not> st_isValidating (snd (handleSubmit failing_config click name_form))"
  using handleSubmit_clears_flags [of failing_config click name_form]
  by (simp add: failing_config_def name_form_def)

text \<open>
  C1. When \<open>onSubmit\<close> is callable, a schema is configured, and the schema rejects the
  whole-object validation of the current values with an error whose \<open>inner\<close> is a list of
  failures (each with a \<open>message\<close> and a \<open>path\<close>), then \<open>handleSubmit\<close> returns normally, the
  errors store holds an object that maps every failure's path to its message, the last
  failure of a path winning, with one property per path, and \<open>onSubmit\<close> has not been called
  in this run.
\<close>

theorem handleSubmit_validation_failure:
  assumes "onSubmit c = Some submit" and "validationSchema c = Some sch"
    and "st_initialValues s = JRef a"
    and "validate sch (heap (snd (clearErrors s))) (st_values s) =
           Rejected (ErrorObject nm msg p es (InnerArray fs))"
    and "InnerNullish \<notin> set fs"
  shows "case handleSubmit c event s of (r, s') \<Rightarrow>
      r = Inr () \<and>
      map_of (spread (heap s') (st_errors s')) =
        map_of (rev (map (\<lambda>f. (property_key (path f), message f)) fs)) \<and>
      distinct (map fst (spread (heap s') (st_errors s'))) \<and>
      onSubmit_calls (trace s') = onSubmit_calls (trace s)"
proof -
  define s2 where "s2 = (case event of None \<Rightarrow> s | Some ev \<Rightarrow>
     call_capability (stopPropagation ev) StopPropagation
       (call_capability (preventDefault ev) PreventDefault s))"
  note s2 = after_capabilities [OF s2_def]
  have ok: "fst (clearErrors s2) = Inr ()"
    using assms(3) s2(2) by (simp add: clearErrors_returns)
  define s4 where "s4 = (snd (clearErrors s2))\<lparr>st_isSubmitting := True\<rparr>"
  have v: "validate sch (heap s4) (st_values s2) =
      Rejected (ErrorObject nm msg p es (InnerArray fs))"
    using assms(4) s2 by (simp add: s4_def)
  have body: "submit_body c event s =
      (Inr (),
       s4\<lparr>heap := heap s4 @
             [Obj (foldl (\<lambda>acc f. set_prop (property_key (path f)) (message f) acc) [] fs)],
          st_errors := JRef (length (heap s4)), st_isValidating := False\<rparr>)"
    using submit_body_short_circuit [OF assms(1,2) s2_def ok]
      validate_values_failure [OF v assms(5)]
    by (simp add: s4_def)
  show ?thesis
    unfolding handleSubmit_def body
    by (simp add: spread_def cell_at_def foldl_set_prop_map_of foldl_set_prop_distinct
        s4_def s2)
qed

theorem handleSubmit_validation_failure_witness:
  "onSubmit failing_config = Some (\<lambda>h v. ([], Resolved)) \<and>
   validationSchema failing_config = Some failing_schema \<and>
   st_initialValues name_form = JRef 1 \<and>
   validate failing_schema (heap (snd (clearErrors name_form))) (st_values name_form) =
     Rejected (ErrorObject ''ValidationError'' ''3 errors occurred'' PathUndefined
       (ErrorsArray [JStr ''too short'', JStr ''required'', JStr ''not a name''])
       (InnerArray [InnerError (JStr ''too short'') (PathString ''name''),
                    InnerError (JStr ''required'') (PathString ''email''),
                    InnerError (JStr ''not a name'') (PathString ''name'')])) \<and>
   InnerNullish \<notin> set [InnerError (JStr ''too short'') (PathString ''name''),
                    InnerError (JStr ''required'') (PathString ''email''),
                    InnerError (JStr ''not a name'') (PathString ''name'')] \<and>
   (case handleSubmit failing_config click name_form of (r, s') \<Rightarrow>
      r = Inr () \<and>
      map_of (spread (heap s') (st_errors s')) =
        map_of [(''name'', JStr ''not a name''), (''email'', JStr ''required''),
                (''name'', JStr ''too short'')] \<and>
      distinct (map fst (spread (heap s') (st_errors s'))) \<and>
      onSubmit_calls (trace s') = onSubmit_calls (trace name_form))"
  using handleSubmit_validation_failure [of failing_config "\<lambda>h v. ([], Resolved)"
      failing_schema name_form 1 "''ValidationError''" "''3 errors occurred''" PathUndefined
      "ErrorsArray [JStr ''too short'', JStr ''required'', JStr ''not a name'']"
      "[InnerError (JStr ''too short'') (PathString ''name''),
        InnerError (JStr ''required'') (PathString ''email''),
        InnerError (JStr ''not a name'') (PathString ''name'')]" click]
  by (simp add: failing_config_def failing_schema_def name_form_def)

text \<open>
  C7, as the claim states it, fails: \<open>handleSubmit\<close> does not copy the values. On the form of
  \<open>{name: ""}\<close> the values store holds the object at address 4, and \<open>onSubmit\<close> is called with
  that same reference; an assignment to the \<open>name\<close> property through it changes what the
  values store holds.
\<close>

theorem handleSubmit_snapshot_counterexample:
  "st_values name_form = JRef 4 \<and>
   onSubmit_calls (trace (snd (handleSubmit submitting_config click name_form))) = [JRef 4] \<and>
   st_values (snd (handleSubmit submitting_config click name_form)) = JRef 4 \<and>
   spread (heap (snd (handleSubmit submitting_config click name_form))) (JRef 4) =
     [(''name'', JStr [])] \<and>
   spread (assign_prop 4 ''name'' (JStr ''typed'')
             (heap (snd (handleSubmit submitting_config click name_form))))
      (st_values (snd (handleSubmit submitting_config click name_form))) =
     [(''name'', JStr ''typed'')]"
  by (simp add: submitting_config_def plain_config_def name_form_def click_def
      handleSubmit_def submit_body_def call_capability_def clearErrors_def clone_def
      own_entries_def cell_at_def clone_field_def alloc_def fromEntries_def
      call_onSubmit_def spread_def assign_prop_def)

text \<open>
  C7, amended. \<open>handleSubmit\<close> reads the reference that the values store holds when it starts
  (no copy is made). When \<open>onSubmit\<close> is callable and no schema is configured or the schema
  accepts the values, the effects of the run are exactly: the calls of \<open>preventDefault\<close> and
  \<open>stopPropagation\<close> for the capabilities that the event has, and then one call of \<open>onSubmit\<close>
  with that reference.
\<close>

theorem handleSubmit_invokes_onSubmit:
  assumes "onSubmit c = Some submit" and "st_initialValues s = JRef a"
    and "validationSchema c = None \<or>
         (\<exists>sch. validationSchema c = Some sch \<and>
            validate sch (heap (snd (clearErrors s))) (st_values s) = Resolved)"
  shows "trace (snd (handleSubmit c event s)) =
           trace s @ capability_effects event @ [OnSubmit (st_values s)]"
proof -
  define s2 where "s2 = (case event of None \<Rightarrow> s | Some ev \<Rightarrow>
     call_capability (stopPropagation ev) StopPropagation
       (call_capability (preventDefault ev) PreventDefault s))"
  note s2 = after_capabilities [OF s2_def]
  have tr: "trace s2 = trace s @ capability_effects event"
    unfolding s2_def by (rule capabilities_trace)
  have ok: "fst (clearErrors s2) = Inr ()"
    using assms(2) s2(2) by (simp add: clearErrors_returns)
  define s4 where "s4 = (snd (clearErrors s2))\<lparr>st_isSubmitting := True\<rparr>"
  have s4: "trace s4 = trace s2" "heap s4 = heap (snd (clearErrors s))"
    by (simp_all add: s4_def s2)
  have "\<exists>s5. submit_body c event s = call_onSubmit c submit (st_values s) s5 \<and>
      trace s5 = trace s2"
  proof (cases "validationSchema c")
    case None
    then show ?thesis
      using submit_body_proceeds [OF assms(1) s2_def ok s4_def, of s4] s2(3) s4(1) by auto
  next
    case (Some sch)
    then have "validate sch (heap s4) (st_values s2) = Resolved"
      using assms(3) s2(3) s4(2) by simp
    then have "validate_values sch (st_values s2) s4 =
        (Inr True, s4\<lparr>st_isValidating := False\<rparr>)"
      by (rule validate_values_passes)
    then show ?thesis
      using submit_body_proceeds [OF assms(1) s2_def ok s4_def,
          of "s4\<lparr>st_isValidating := False\<rparr>"] Some s2(3) s4(1)
      by auto
  qed
  then obtain s5 where s5: "submit_body c event s = call_onSubmit c submit (st_values s) s5"
    "trace s5 = trace s2" by blast
  show ?thesis
    by (simp add: handleSubmit_def s5 call_onSubmit_trace tr case_prod_beta)
qed

theorem handleSubmit_invokes_onSubmit_witness:
  "onSubmit submitting_config = Some (\<lambda>h v. ([], Resolved)) \<and>
   onSubmit passing_config = Some (\<lambda>h v. ([], Resolved)) \<and>
   st_initialValues name_form = JRef 1 \<and>
   validationSchema submitting_config = None \<and>
   validationSchema passing_config \<noteq> None \<and>
   trace (snd (handleSubmit submitting_config click name_form)) =
     [PreventDefault, StopPropagation, OnSubmit (JRef 4)] \<and>
   trace (snd (handleSubmit passing_config None name_form)) = [OnSubmit (JRef 4)]"
  using handleSubmit_invokes_onSubmit [of submitting_config "\<lambda>h v. ([], Resolved)"
      name_form 1 click]
    handleSubmit_invokes_onSubmit [of passing_config "\<lambda>h v. ([], Resolved)"
      name_form 1 None]
  by (simp add: passing_config_def submitting_config_def plain_config_def name_form_def
      click_def capability_effects_def)

section \<open>Resetting\<close>

text \<open>
  C5. The claim is that \<open>reset\<close> stores a copy of the initial values. It stores the reference
  itself: on the form that \<open>newForm\<close> makes of \<open>{name: ""}\<close>, after \<open>reset\<close> the values store
  and the initial-values store hold the same object (address 1) and nothing was allocated,
  so that an assignment to \<open>$values.name\<close> changes the initial values as well. The other
  stores are left as they were.
\<close>

theorem reset_aliases_initialValues:
  "newForm (Some plain_config) [Obj [(''name'', JStr [])]] = Inr name_form \<and>
   st_values (reset name_form) = JRef 1 \<and>
   st_initialValues (reset name_form) = JRef 1 \<and>
   heap (reset name_form) = heap name_form \<and>
   st_errors (reset name_form) = st_errors name_form \<and>
   st_touched (reset name_form) = st_touched name_form \<and>
   st_isSubmitting (reset name_form) = st_isSubmitting name_form \<and>
   st_isValidating (reset name_form) = st_isValidating name_form \<and>
   spread (assign_prop 1 ''name'' (JStr ''typed'') (heap (reset name_form)))
      (st_initialValues (reset name_form)) = [(''name'', JStr ''typed'')]"
  by (simp add: newForm_def plain_config_def name_form_def clone_def own_entries_def
      cell_at_def clone_field_def alloc_def fromEntries_def spread_def reset_def
      assign_prop_def)

section \<open>Key sets\<close>

text \<open>
  C3, as the claim states it, fails: the operations take any field name. On the form of
  \<open>{name: ""}\<close>, a change event and a blur event of an input named \<open>other\<close> add the key
  \<open>other\<close> to the values and to the touched map, and a submit whose validation reports the
  path \<open>email\<close> leaves the errors map with the key \<open>email\<close>.
\<close>

theorem key_sets_counterexample:
  "newForm (Some failing_config) [Obj [(''name'', JStr [])]] = Inr name_form \<and>
   keys_of (heap name_form) (st_values name_form) = {''name''} \<and>
   keys_of
     (heap (run id failing_config
        [HandleChange other_input, HandleBlur other_input, HandleSubmit click] name_form))
     (st_values (run id failing_config
        [HandleChange other_input, HandleBlur other_input, HandleSubmit click] name_form)) =
     {''name'', ''other''} \<and>
   keys_of
     (heap (run id failing_config
        [HandleChange other_input, HandleBlur other_input, HandleSubmit click] name_form))
     (st_touched (run id failing_config
        [HandleChange other_input, HandleBlur other_input, HandleSubmit click] name_form)) =
     {''name'', ''other''} \<and>
   keys_of
     (heap (run id failing_config
        [HandleChange other_input, HandleBlur other_input, HandleSubmit click] name_form))
     (st_errors (run id failing_config
        [HandleChange other_input, HandleBlur other_input, HandleSubmit click] name_form)) =
     {''name'', ''email''}"
proof -
  have nf: "newForm (Some failing_config) [Obj [(''name'', JStr [])]] = Inr name_form"
    by (simp add: newForm_def failing_config_def name_form_def clone_def own_entries_def
        cell_at_def clone_field_def alloc_def fromEntries_def spread_def)
  have r: "run id failing_config
        [HandleChange other_input, HandleBlur other_input, HandleSubmit click] name_form =
     \<lparr>heap =
    [Obj [(''name'', JStr [])], Obj [(''name'', JStr [])],
     Obj [(''name'', JNull)], Obj [(''name'', JBool False)],
     Obj [(''name'', JStr [])],
     Obj [(''name'', JStr []), (''other'', JStr ''x'')],
     Obj [(''name'', JBool False), (''other'', JBool True)],
     Obj [(''name'', JNull)],
     Obj [(''name'', JStr ''not a name''), (''email'', JStr ''required'')]],
    st_initialValues = JRef 1, st_isSubmitting = False,
    st_isValidating = False, st_errors = JRef 8, st_touched = JRef 6,
    st_values = JRef 5, trace = [PreventDefault, StopPropagation]\<rparr>"
    by code_simp
  show ?thesis
    unfolding r using nf
    by (auto simp add: keys_of_def spread_def cell_at_def name_form_def)
qed

text \<open>
  C3, amended. Let a form be created from an initial-values object with the key set \<open>K\<close>.
  For every sequence of operations that name fields of \<open>K\<close> only (event target names,
  field arguments, the paths that the schema reports, the fields of the helper calls of
  \<open>onSubmit\<close>) and that give \<open>setInitialValues\<close> objects with the key set \<open>K\<close> only, the key
  set of the values stays \<open>K\<close> and the key sets of the errors and of the touched map stay
  within \<open>K\<close>.
\<close>

theorem key_sets_preserved:
  assumes "initialValues c = JRef a" and "a < length h" and "h ! a = Obj kvs"
    and "distinct (map fst kvs)" and "newForm (Some c) h = Inr s"
    and "config_within (set (map fst kvs)) c"
    and "operations_within up c (set (map fst kvs)) as s"
  shows "keys_of (heap (run up c as s)) (st_values (run up c as s)) = set (map fst kvs) \<and>
         keys_of (heap (run up c as s)) (st_errors (run up c as s)) \<subseteq> set (map fst kvs) \<and>
         keys_of (heap (run up c as s)) (st_touched (run up c as s)) \<subseteq> set (map fst kvs)"
  using run_within [OF newForm_within [OF assms(1-5)] assms(6,7)]
  by (simp add: form_within_def)

theorem key_sets_preserved_witness:
  "initialValues strict_config = JRef 0 \<and> 0 < length [Obj [(''name'', JStr [])]] \<and>
   [Obj [(''name'', JStr [])]] ! 0 = Obj [(''name'', JStr [])] \<and>
   distinct (map fst [(''name'', JStr [])]) \<and>
   newForm (Some strict_config) [Obj [(''name'', JStr [])]] = Inr name_form \<and>
   config_within {''name''} strict_config \<and>
   operations_within id strict_config {''name''} session name_form \<and>
   keys_of (heap (run id strict_config session name_form))
     (st_values (run id strict_config session name_form)) = {''name''} \<and>
   keys_of (heap (run id strict_config session name_form))
     (st_errors (run id strict_config session name_form)) \<subseteq> {''name''} \<and>
   keys_of (heap (run id strict_config session name_form))
     (st_touched (run id strict_config session name_form)) \<subseteq> {''name''}"
proof -
  have hyps: "initialValues strict_config = JRef 0" "0 < length [Obj [(''name'', JStr [])]]"
    "[Obj [(''name'', JStr [])]] ! 0 = Obj [(''name'', JStr [])]"
    "distinct (map fst [(''name'', JStr [])])"
    by (simp_all add: strict_config_def)
  have nf: "newForm (Some strict_config) [Obj [(''name'', JStr [])]] = Inr name_form"
    by (simp add: newForm_def strict_config_def name_form_def clone_def own_entries_def
        cell_at_def clone_field_def alloc_def fromEntries_def spread_def)
  have cw: "config_within (set (map fst [(''name'', JStr [])])) strict_config"
    by (simp add: config_within_def strict_config_def)
  have ow: "operations_within id strict_config (set (map fst [(''name'', JStr [])]))
      session name_form"
    by code_simp
  from key_sets_preserved [OF hyps nf cw ow] hyps nf cw ow show ?thesis
    by simp
qed

end
